theory Spec2Isabelle
  imports Main "HOL-Library.Char_ord" "HOL-Library.List_Lexorder" "HOL-Library.Sublist"
    "HOL-Library.Multiset"
begin

section \<open>Strings, numbers and keys (src/db/db.ts)\<close>

text \<open>
  Keys of the store are JavaScript strings of ASCII characters; LevelDB compares them
  bytewise. A key is a \<^typ>\<open>string\<close>, and the order on keys is the lexicographic order of
  lists over the order of characters by code (\<open>HOL-Library.List_Lexorder\<close> over
  \<open>HOL-Library.Char_ord\<close>).

  An \<open>index: number\<close> is a zero-based position, a \<^typ>\<open>nat\<close>. Numbers are
  integers here; the one limit of JavaScript's numbers that the code meets is written out:
  \<open>BigNumber.from\<close> refuses a number from \<open>2^53 - 1\<close> on, and \<open>toNumber\<close> refuses a
  value from \<open>2^53\<close> on.

  A method whose name starts with an underscore in the source (\<open>_makeKey\<close>, \<open>_get\<close>,
  \<open>_putBatch\<close>, \<open>_values\<close>, \<open>_start\<close>, \<open>_syncSequencerBlocks\<close>) carries the prefix
  \<open>priv_\<close> here.
\<close>

datatype error =
    NotFoundError
  | StorageError string
  | TypeError
  | BigNumberError
  | NumericFault string
  | RpcError string
  | DecodeError string

text \<open>
  What \<open>BigNumber.from\<close> is handed in db.ts: a number (an \<open>index\<close>, a bound of a range),
  the text of a number (what the store gives back for a number that was put, the store
  keeping values as text), or something that is no number (the text of an entry).
\<close>

datatype js_index = Number nat | Text nat | NotNumeric

text \<open>
  \<open>MAX_SAFE\<close> is \<open>0x1fffffffffffff = 2^53 - 1\<close>. \<open>BigNumber.from\<close> (ethers) throws the
  numeric fault \<open>overflow\<close> for a number \<open>value >= MAX_SAFE\<close>, takes the decimal text of a
  number of any size, and throws for a value that is no number.
\<close>

definition MAX_SAFE :: nat where
  "MAX_SAFE = 9007199254740991"

fun BigNumber_from :: "js_index \<Rightarrow> error + nat" where
  "BigNumber_from (Number n) = (if MAX_SAFE \<le> n then Inl (NumericFault ''overflow'') else Inr n)"
| "BigNumber_from (Text n) = Inr n"
| "BigNumber_from NotNumeric = Inl BigNumberError"

text \<open>
  \<open>BigNumber.toNumber()\<close> throws the numeric fault \<open>overflow\<close> for a value of more than 53
  bits.
\<close>

definition toNumber :: "nat \<Rightarrow> error + nat" where
  "toNumber n = (if 9007199254740992 \<le> n then Inl (NumericFault ''overflow'') else Inr n)"

text \<open>\<open>BigNumber.toString()\<close>: base 10 without leading zeros.\<close>

definition digit_char :: "nat \<Rightarrow> char" where
  "digit_char d = char_of (48 + d)"

function BigNumber_toString :: "nat \<Rightarrow> string" where
  "BigNumber_toString n =
     (if n < 10 then [digit_char n]
      else BigNumber_toString (n div 10) @ [digit_char (n mod 10)])"
  by pat_completeness auto
termination
  by (relation "measure id") auto

declare BigNumber_toString.simps [simp del]

text \<open>
  \<open>String.prototype.padStart(targetLength, padString)\<close>: the pad string is repeated and
  cut to the missing length and put in front; a string that is already long enough is
  returned as it is, and so is every string when the pad string is empty.
\<close>

definition padStart :: "nat \<Rightarrow> string \<Rightarrow> string \<Rightarrow> string" where
  "padStart targetLength padString s =
     (if targetLength \<le> length s \<or> padString = [] then s
      else take (targetLength - length s)
             (concat (replicate (targetLength - length s) padString)) @ s)"

definition priv_makeKey :: "string \<Rightarrow> js_index \<Rightarrow> error + string" where
  "priv_makeKey key index =
     (case BigNumber_from index of
        Inl e \<Rightarrow> Inl e
      | Inr n \<Rightarrow> Inr (key @ '':'' @ padStart 32 ''0'' (BigNumber_toString n)))"

text \<open>The key that \<open>_makeKey\<close> builds for the index \<open>n\<close> when \<open>BigNumber.from\<close> accepts it.\<close>

definition key_text :: "string \<Rightarrow> nat \<Rightarrow> string" where
  "key_text key n = key @ '':'' @ padStart 32 ''0'' (BigNumber_toString n)"

text \<open>The numeral of \<open>n\<close> in exactly \<open>w\<close> digits, the last \<open>w\<close> digits of \<open>n\<close>.\<close>

fun fixed_digits :: "nat \<Rightarrow> nat \<Rightarrow> string" where
  "fixed_digits 0 n = []"
| "fixed_digits (Suc w) n = fixed_digits w (n div 10) @ [digit_char (n mod 10)]"

text \<open>The number a string of decimal digits stands for, leading zeros allowed.\<close>

definition digits_value :: "string \<Rightarrow> nat" where
  "digits_value s = foldl (\<lambda>acc c. 10 * acc + (of_char c - 48)) 0 s"

section \<open>The storage backend and TransportDB (src/db/db.ts)\<close>

subsection \<open>Values, errors and the backend\<close>

text \<open>
  Every entry interface of db.ts (\<open>EnqueueEntry\<close>, \<open>TransactionEntry\<close>,
  \<open>TransactionBatchEntry\<close>, \<open>StateRootEntry\<close>, \<open>StateRootBatchEntry\<close>) has the field
  \<open>index: number\<close>, the only field TransportDB reads. An entry is a record that extends
  \<open>Indexed\<close>: its type is \<open>'a Indexed_scheme\<close>, the other fields of the interface being
  the extension \<open>'a\<close>.
\<close>

record Indexed =
  index :: nat

text \<open>
  What the store holds and hands back, the \<open>any\<close> of the source: a number (a latest
  pointer, a scanned block) or an entry. The store keeps values as text: a number comes
  back as its decimal text, and \<open>JSON.stringify\<close> followed by \<open>JSON.parse\<close> gives back
  the entry it started from, so a stored entry is the entry itself.
\<close>

datatype 'r js_value = Num nat | Obj 'r

text \<open>
  The backend \<open>db: any\<close> is a LevelUP handle, an external library: a table of keys and
  values sorted bytewise by key, with \<open>get\<close>, \<open>put\<close>, \<open>batch\<close> (a list of puts applied in
  order as one write) and \<open>createValueStream\<close> over a key range \<open>gte \<le> key < lt\<close> in key
  order. \<open>get\<close> on a missing key fails with \<open>NotFoundError\<close>. The field \<open>fault\<close> stands
  for any other failure of the backend (closed handle, I/O error): while it is set every
  operation fails with it and writes nothing.
\<close>

record 'r LevelUP =
  table :: "(string \<times> 'r js_value) list"
  fault :: "error option"

definition db_empty :: "'r LevelUP" where
  "db_empty = \<lparr>table = [], fault = None\<rparr>"

fun upsert :: "string \<Rightarrow> 'v \<Rightarrow> (string \<times> 'v) list \<Rightarrow> (string \<times> 'v) list" where
  "upsert k v [] = [(k, v)]"
| "upsert k v ((k', v') # rest) =
     (if k < k' then (k, v) # (k', v') # rest
      else if k = k' then (k, v) # rest
      else (k', v') # upsert k v rest)"

definition db_get :: "'r LevelUP \<Rightarrow> string \<Rightarrow> error + 'r js_value" where
  "db_get db k =
     (case fault db of
        Some e \<Rightarrow> Inl e
      | None \<Rightarrow> (case map_of (table db) k of None \<Rightarrow> Inl NotFoundError | Some v \<Rightarrow> Inr v))"

definition db_put :: "'r LevelUP \<Rightarrow> string \<Rightarrow> 'r js_value \<Rightarrow> (error + unit) \<times> 'r LevelUP" where
  "db_put db k v =
     (case fault db of
        Some e \<Rightarrow> (Inl e, db)
      | None \<Rightarrow> (Inr (), db\<lparr>table := upsert k v (table db)\<rparr>))"

definition db_batch :: "'r LevelUP \<Rightarrow> (string \<times> 'r js_value) list \<Rightarrow> (error + unit) \<times> 'r LevelUP" where
  "db_batch db ops =
     (case fault db of
        Some e \<Rightarrow> (Inl e, db)
      | None \<Rightarrow> (Inr (), db\<lparr>table := fold (\<lambda>(k, v). upsert k v) ops (table db)\<rparr>))"

definition db_createValueStream :: "'r LevelUP \<Rightarrow> string \<Rightarrow> string \<Rightarrow> error + 'r js_value list" where
  "db_createValueStream db gte lt =
     (case fault db of
        Some e \<Rightarrow> Inl e
      | None \<Rightarrow> Inr (map snd (filter (\<lambda>(k, v). gte \<le> k \<and> k < lt) (table db))))"

text \<open>A value read back from the store, as \<open>BigNumber.from\<close> sees it.\<close>

fun read_back :: "'r js_value \<Rightarrow> js_index" where
  "read_back (Num n) = Text n"
| "read_back (Obj r) = NotNumeric"

text \<open>
  \<open>Array.prototype.map\<close> with a callback that may throw: the elements are mapped in
  order and the first exception leaves the call.
\<close>

fun array_map :: "('a \<Rightarrow> error + 'b) \<Rightarrow> 'a list \<Rightarrow> error + 'b list" where
  "array_map f [] = Inr []"
| "array_map f (x # xs) =
     (case f x of
        Inl e \<Rightarrow> Inl e
      | Inr y \<Rightarrow> (case array_map f xs of Inl e \<Rightarrow> Inl e | Inr ys \<Rightarrow> Inr (y # ys)))"

subsection \<open>TransportDB\<close>

text \<open>
  \<open>_putBatch\<close> builds the list of puts with \<open>elements.map\<close> before it calls
  \<open>db.batch\<close>: when \<open>_makeKey\<close> throws for an element, nothing is written.
\<close>

definition priv_putBatch ::
  "('a Indexed_scheme) LevelUP \<Rightarrow> string \<Rightarrow> ('a Indexed_scheme) list
    \<Rightarrow> (error + unit) \<times> ('a Indexed_scheme) LevelUP"
  where
  "priv_putBatch db key elements =
     (case array_map
             (\<lambda>element.
                case priv_makeKey key (Number (index element)) of
                  Inl e \<Rightarrow> Inl e
                | Inr k \<Rightarrow> Inr (k, Obj element))
             elements of
        Inl e \<Rightarrow> (Inl e, db)
      | Inr ops \<Rightarrow> db_batch db ops)"

text \<open>
  \<open>entries[entries.length - 1].index\<close>: on the empty array the element is \<open>undefined\<close>
  and reading its \<open>index\<close> throws a \<open>TypeError\<close>.
\<close>

definition last_index :: "('a Indexed_scheme) list \<Rightarrow> error + nat" where
  "last_index entries = (if entries = [] then Inl TypeError else Inr (index (last entries)))"

definition putEnqueueEntries ::
  "('a Indexed_scheme) LevelUP \<Rightarrow> ('a Indexed_scheme) list
    \<Rightarrow> (error + unit) \<times> ('a Indexed_scheme) LevelUP"
  where
  "putEnqueueEntries db entries =
     (case priv_putBatch db ''enqueue:index'' entries of
        (Inl e, db') \<Rightarrow> (Inl e, db')
      | (Inr u, db') \<Rightarrow>
          (case last_index entries of
             Inl e \<Rightarrow> (Inl e, db')
           | Inr i \<Rightarrow> db_put db' ''enqueue:latest'' (Num i)))"

definition putTransactionEntries ::
  "('a Indexed_scheme) LevelUP \<Rightarrow> ('a Indexed_scheme) list
    \<Rightarrow> (error + unit) \<times> ('a Indexed_scheme) LevelUP"
  where
  "putTransactionEntries db entries =
     (case priv_putBatch db ''transaction:index'' entries of
        (Inl e, db') \<Rightarrow> (Inl e, db')
      | (Inr u, db') \<Rightarrow>
          (case last_index entries of
             Inl e \<Rightarrow> (Inl e, db')
           | Inr i \<Rightarrow> db_put db' ''transaction:latest'' (Num i)))"

definition putTransactionBatchEntries ::
  "('a Indexed_scheme) LevelUP \<Rightarrow> ('a Indexed_scheme) list
    \<Rightarrow> (error + unit) \<times> ('a Indexed_scheme) LevelUP"
  where
  "putTransactionBatchEntries db entries =
     (case priv_putBatch db ''batch:transaction:index'' entries of
        (Inl e, db') \<Rightarrow> (Inl e, db')
      | (Inr u, db') \<Rightarrow>
          (case last_index entries of
             Inl e \<Rightarrow> (Inl e, db')
           | Inr i \<Rightarrow> db_put db' ''batch:transaction:latest'' (Num i)))"

definition putStateRootEntries ::
  "('a Indexed_scheme) LevelUP \<Rightarrow> ('a Indexed_scheme) list
    \<Rightarrow> (error + unit) \<times> ('a Indexed_scheme) LevelUP"
  where
  "putStateRootEntries db entries =
     (case priv_putBatch db ''stateroot:index'' entries of
        (Inl e, db') \<Rightarrow> (Inl e, db')
      | (Inr u, db') \<Rightarrow>
          (case last_index entries of
             Inl e \<Rightarrow> (Inl e, db')
           | Inr i \<Rightarrow> db_put db' ''stateroot:latest'' (Num i)))"

definition putStateRootBatchEntries ::
  "('a Indexed_scheme) LevelUP \<Rightarrow> ('a Indexed_scheme) list
    \<Rightarrow> (error + unit) \<times> ('a Indexed_scheme) LevelUP"
  where
  "putStateRootBatchEntries db entries =
     (case priv_putBatch db ''batch:stateroot:index'' entries of
        (Inl e, db') \<Rightarrow> (Inl e, db')
      | (Inr u, db') \<Rightarrow>
          (case last_index entries of
             Inl e \<Rightarrow> (Inl e, db')
           | Inr i \<Rightarrow> db_put db' ''batch:stateroot:latest'' (Num i)))"

definition priv_get :: "'r LevelUP \<Rightarrow> string \<Rightarrow> js_index \<Rightarrow> error + 'r js_value" where
  "priv_get db key i =
     (case priv_makeKey key i of
        Inl e \<Rightarrow> Inl e
      | Inr k \<Rightarrow> db_get db k)"

definition priv_values :: "'r LevelUP \<Rightarrow> string \<Rightarrow> nat \<Rightarrow> nat \<Rightarrow> error + 'r js_value list" where
  "priv_values db key start end =
     (case priv_makeKey key (Number start) of
        Inl e \<Rightarrow> Inl e
      | Inr gte \<Rightarrow>
          (case priv_makeKey key (Number end) of
             Inl e \<Rightarrow> Inl e
           | Inr lt \<Rightarrow> db_createValueStream db gte lt))"

text \<open>
  The \<open>get...ByIndex\<close> methods take what their caller hands them as \<open>index\<close>: a number
  from outside, \<open>Number i\<close>, or what \<open>db.get\<close> returned for a latest pointer.
\<close>

definition getEnqueueByIndex :: "'r LevelUP \<Rightarrow> js_index \<Rightarrow> error + 'r js_value" where
  "getEnqueueByIndex db i = priv_get db ''enqueue:index'' i"

definition getTransactionByIndex :: "'r LevelUP \<Rightarrow> js_index \<Rightarrow> error + 'r js_value" where
  "getTransactionByIndex db i = priv_get db ''transaction:index'' i"

definition getTransactionsByIndexRange :: "'r LevelUP \<Rightarrow> nat \<Rightarrow> nat \<Rightarrow> error + 'r js_value list" where
  "getTransactionsByIndexRange db start end = priv_values db ''transaction:index'' start end"

definition getTransactionBatchByIndex :: "'r LevelUP \<Rightarrow> js_index \<Rightarrow> error + 'r js_value" where
  "getTransactionBatchByIndex db i = priv_get db ''batch:transaction:index'' i"

definition getStateRootByIndex :: "'r LevelUP \<Rightarrow> js_index \<Rightarrow> error + 'r js_value" where
  "getStateRootByIndex db i = priv_get db ''stateroot:index'' i"

definition getStateRootsByIndexRange :: "'r LevelUP \<Rightarrow> nat \<Rightarrow> nat \<Rightarrow> error + 'r js_value list" where
  "getStateRootsByIndexRange db start end = priv_values db ''stateroot:index'' start end"

definition getStateRootBatchByIndex :: "'r LevelUP \<Rightarrow> js_index \<Rightarrow> error + 'r js_value" where
  "getStateRootBatchByIndex db i = priv_get db ''batch:stateroot:index'' i"

text \<open>
  The \<open>getLatest...\<close> methods read the latest pointer with \<open>db.get\<close> and pass what they
  read as the index of the \<open>get...ByIndex\<close> method, where \<open>_makeKey\<close> hands it to
  \<open>BigNumber.from\<close>.
\<close>

definition get_at_pointer ::
  "'r LevelUP \<Rightarrow> string \<Rightarrow> ('r LevelUP \<Rightarrow> js_index \<Rightarrow> error + 'r js_value)
    \<Rightarrow> error + 'r js_value"
  where
  "get_at_pointer db latest byIndex =
     (case db_get db latest of
        Inl e \<Rightarrow> Inl e
      | Inr v \<Rightarrow> byIndex db (read_back v))"

definition getLatestEnqueue :: "'r LevelUP \<Rightarrow> error + 'r js_value" where
  "getLatestEnqueue db = get_at_pointer db ''enqueue:latest'' getEnqueueByIndex"

definition getLatestTransaction :: "'r LevelUP \<Rightarrow> error + 'r js_value" where
  "getLatestTransaction db = get_at_pointer db ''transaction:latest'' getTransactionByIndex"

definition getLatestTransactionBatch :: "'r LevelUP \<Rightarrow> error + 'r js_value" where
  "getLatestTransactionBatch db =
     get_at_pointer db ''batch:transaction:latest'' getTransactionBatchByIndex"

definition getLatestStateRoot :: "'r LevelUP \<Rightarrow> error + 'r js_value" where
  "getLatestStateRoot db = get_at_pointer db ''stateroot:latest'' getStateRootByIndex"

definition getLatestStateRootBatch :: "'r LevelUP \<Rightarrow> error + 'r js_value" where
  "getLatestStateRootBatch db =
     get_at_pointer db ''batch:stateroot:latest'' getStateRootBatchByIndex"

text \<open>
  \<open>try { return BigNumber.from(await this.db.get(...)).toNumber() } catch (err) { return null }\<close>:
  the result is \<open>Inr\<close> of the number, \<open>Inr None\<close> for \<open>null\<close>, and \<open>Inl\<close> would be an
  exception leaving the method.
\<close>

definition try_catch :: "error + 'a \<Rightarrow> (error \<Rightarrow> error + 'a) \<Rightarrow> error + 'a" where
  "try_catch body handler = (case body of Inl err \<Rightarrow> handler err | Inr v \<Rightarrow> Inr v)"

definition getLastScannedEventBlock :: "'r LevelUP \<Rightarrow> string \<Rightarrow> error + nat option" where
  "getLastScannedEventBlock db event =
     try_catch
       (case db_get db (''event:latest:'' @ event) of
          Inl e \<Rightarrow> Inl e
        | Inr v \<Rightarrow>
            (case BigNumber_from (read_back v) of
               Inl e \<Rightarrow> Inl e
             | Inr b \<Rightarrow> (case toNumber b of Inl e \<Rightarrow> Inl e | Inr n \<Rightarrow> Inr (Some n))))
       (\<lambda>err. Inr None)"

definition putLastScannedEventBlock ::
  "'r LevelUP \<Rightarrow> string \<Rightarrow> nat \<Rightarrow> (error + unit) \<times> 'r LevelUP" where
  "putLastScannedEventBlock db event block = db_put db (''event:latest:'' @ event) (Num block)"

subsection \<open>The five kinds of indexed records\<close>

text \<open>
  The spec speaks of one \<open>putIndexed\<close>, \<open>getByIndex\<close> and \<open>getLatest\<close> per kind; the source
  has one method per kind and operation. \<open>putIndexed k\<close> is the source's method for the
  kind \<open>k\<close>, and so on.
\<close>

datatype kind = Enqueue | Transaction | TransactionBatch | StateRoot | StateRootBatch

fun index_namespace :: "kind \<Rightarrow> string" where
  "index_namespace Enqueue = ''enqueue:index''"
| "index_namespace Transaction = ''transaction:index''"
| "index_namespace TransactionBatch = ''batch:transaction:index''"
| "index_namespace StateRoot = ''stateroot:index''"
| "index_namespace StateRootBatch = ''batch:stateroot:index''"

fun latest_key :: "kind \<Rightarrow> string" where
  "latest_key Enqueue = ''enqueue:latest''"
| "latest_key Transaction = ''transaction:latest''"
| "latest_key TransactionBatch = ''batch:transaction:latest''"
| "latest_key StateRoot = ''stateroot:latest''"
| "latest_key StateRootBatch = ''batch:stateroot:latest''"

fun putIndexed ::
  "kind \<Rightarrow> ('a Indexed_scheme) LevelUP \<Rightarrow> ('a Indexed_scheme) list
    \<Rightarrow> (error + unit) \<times> ('a Indexed_scheme) LevelUP"
  where
  "putIndexed Enqueue = putEnqueueEntries"
| "putIndexed Transaction = putTransactionEntries"
| "putIndexed TransactionBatch = putTransactionBatchEntries"
| "putIndexed StateRoot = putStateRootEntries"
| "putIndexed StateRootBatch = putStateRootBatchEntries"

fun getByIndex :: "kind \<Rightarrow> 'r LevelUP \<Rightarrow> js_index \<Rightarrow> error + 'r js_value" where
  "getByIndex Enqueue = getEnqueueByIndex"
| "getByIndex Transaction = getTransactionByIndex"
| "getByIndex TransactionBatch = getTransactionBatchByIndex"
| "getByIndex StateRoot = getStateRootByIndex"
| "getByIndex StateRootBatch = getStateRootBatchByIndex"

fun getLatest :: "kind \<Rightarrow> 'r LevelUP \<Rightarrow> error + 'r js_value" where
  "getLatest Enqueue = getLatestEnqueue"
| "getLatest Transaction = getLatestTransaction"
| "getLatest TransactionBatch = getLatestTransactionBatch"
| "getLatest StateRoot = getLatestStateRoot"
| "getLatest StateRootBatch = getLatestStateRootBatch"

subsection \<open>Auxiliary views of a write\<close>

text \<open>
  The puts that \<open>_putBatch\<close> hands to \<open>db.batch\<close> for a kind when every key is built.
\<close>

definition entry_puts :: "kind \<Rightarrow> ('a Indexed_scheme) list \<Rightarrow> (string \<times> ('a Indexed_scheme) js_value) list" where
  "entry_puts k entries = map (\<lambda>element. (key_text (index_namespace k) (index element), Obj element)) entries"

subsection \<open>Stores written through TransportDB\<close>

text \<open>
  The writing methods of TransportDB as data, and the store reached from the empty store
  by a sequence of them. A write that fails leaves what it had written before failing.
\<close>

datatype 'r api_write =
    PutEnqueueEntries "'r list"
  | PutTransactionEntries "'r list"
  | PutTransactionBatchEntries "'r list"
  | PutStateRootEntries "'r list"
  | PutStateRootBatchEntries "'r list"
  | PutLastScannedEventBlock string nat

fun perform ::
  "('a Indexed_scheme) api_write \<Rightarrow> ('a Indexed_scheme) LevelUP \<Rightarrow> ('a Indexed_scheme) LevelUP"
  where
  "perform (PutEnqueueEntries entries) db = snd (putEnqueueEntries db entries)"
| "perform (PutTransactionEntries entries) db = snd (putTransactionEntries db entries)"
| "perform (PutTransactionBatchEntries entries) db = snd (putTransactionBatchEntries db entries)"
| "perform (PutStateRootEntries entries) db = snd (putStateRootEntries db entries)"
| "perform (PutStateRootBatchEntries entries) db = snd (putStateRootBatchEntries db entries)"
| "perform (PutLastScannedEventBlock event block) db = snd (putLastScannedEventBlock db event block)"

definition replay :: "('a Indexed_scheme) api_write list \<Rightarrow> ('a Indexed_scheme) LevelUP" where
  "replay ws = fold perform ws db_empty"

text \<open>
  A pair of the table is in order for a kind when, if its key lies in the kind's index
  namespace, it is the key of the index of the record it holds, an index below \<open>MAX_SAFE\<close>.
\<close>

fun pair_ok :: "kind \<Rightarrow> string \<times> ('a Indexed_scheme) js_value \<Rightarrow> bool" where
  "pair_ok k (key, Obj r) \<longleftrightarrow>
     (prefix (index_namespace k @ '':'') key
        \<longrightarrow> key = key_text (index_namespace k) (index r) \<and> index r < MAX_SAFE)"
| "pair_ok k (key, Num n) \<longleftrightarrow> \<not> prefix (index_namespace k @ '':'') key"

definition table_ok :: "kind \<Rightarrow> (string \<times> ('a Indexed_scheme) js_value) list \<Rightarrow> bool" where
  "table_ok k t \<longleftrightarrow> sorted_wrt (<) (map fst t) \<and> list_all (pair_ok k) t"

definition store_ok :: "kind \<Rightarrow> ('a Indexed_scheme) LevelUP \<Rightarrow> bool" where
  "store_ok k db \<longleftrightarrow> fault db = None \<and> table_ok k (table db)"

section \<open>The L2 ingestion service (src/unnamed/part_000)\<close>

subsection \<open>Options, blocks, state and collaborators\<close>

text \<open>
  Block numbers, heights and the batch size are JavaScript numbers holding integers; they
  are subtracted and compared, so they are \<^typ>\<open>int\<close>.
\<close>

record L2IngestionServiceOptions =
  l2ChainId :: int
  pollingInterval :: int
  transactionsPerPollingInterval :: int
  dangerouslyCatchAllErrors :: bool
  legacySequencerCompatibility :: bool

text \<open>
  A raw block of an RPC response. \<open>number\<close> is what
  \<open>BigNumber.from(block.number).toNumber()\<close> reads from it.
\<close>

record block =
  number :: int
  body :: string

text \<open>
  What the service does to the outside is kept in a journal, in the order it happens.
\<close>

datatype event =
    Sleep int
  | LogSynchronizing int int
  | LogCannotQuery int int
  | LogError error
  | Send_getBlockByNumber int
  | Send_getBlockRange int int

text \<open>
  The state the loop works on: the stored cursor (the highest synced unconfirmed block,
  absent in a fresh store), the entries stored by \<open>handleSequencerBlock.storeBlock\<close> in
  the order of the calls, and the journal.
\<close>

record 'e service_state =
  cursor :: "int option"
  stored :: "'e list"
  journal :: "event list"

definition fresh_state :: "'e service_state" where
  "fresh_state = \<lparr>cursor = None, stored = [], journal = []\<rparr>"

text \<open>
  What the collaborators answer during one iteration of the loop: the remote endpoint
  (\<open>l2RpcProvider\<close>), the decoder, failures of the store, and the flag \<open>this.running\<close>
  of the base class as the loop condition reads it and as the \<open>catch\<close> block reads it
  (a stop may be asked for in between).
\<close>

record 'e world =
  running :: bool
  running_in_catch :: bool
  getBlockNumber :: "error + int"
  eth_getBlockByNumber :: "int \<Rightarrow> error + block"
  eth_getBlockRange :: "int \<Rightarrow> int \<Rightarrow> error + block list"
  parseBlock :: "block \<Rightarrow> int \<Rightarrow> error + 'e"
  storeBlock_fault :: "'e \<Rightarrow> error option"
  cursor_read_fault :: "error option"
  cursor_write_fault :: "error option"

text \<open>
  Modelled from the spec: \<open>getHighestSyncedUnconfirmedBlock\<close> and
  \<open>setHighestSyncedUnconfirmedBlock\<close> of db/transport-db, which is not under src/. The
  spec has the cursor read as absent when nothing was stored (the engine then defaults
  to 1) and written by a single pointer update; like every access to the store, either
  can fail.
\<close>

definition getHighestSyncedUnconfirmedBlock ::
  "'e world \<Rightarrow> 'e service_state \<Rightarrow> error + int option" where
  "getHighestSyncedUnconfirmedBlock w s =
     (case cursor_read_fault w of Some e \<Rightarrow> Inl e | None \<Rightarrow> Inr (cursor s))"

definition setHighestSyncedUnconfirmedBlock ::
  "'e world \<Rightarrow> int \<Rightarrow> 'e service_state \<Rightarrow> (error + unit) \<times> 'e service_state" where
  "setHighestSyncedUnconfirmedBlock w b s =
     (case cursor_write_fault w of
        Some e \<Rightarrow> (Inl e, s)
      | None \<Rightarrow> (Inr (), s\<lparr>cursor := Some b\<rparr>))"

text \<open>
  Modelled from the spec: \<open>handleSequencerBlock.storeBlock\<close> of handlers/transaction,
  which is not under src/. The spec has it persist the entry through the store; it may
  fail.
\<close>

definition storeBlock ::
  "'e world \<Rightarrow> 'e \<Rightarrow> 'e service_state \<Rightarrow> (error + unit) \<times> 'e service_state" where
  "storeBlock w entry s =
     (case storeBlock_fault w entry of
        Some e \<Rightarrow> (Inl e, s)
      | None \<Rightarrow> (Inr (), s\<lparr>stored := stored s @ [entry]\<rparr>))"

text \<open>
  Modelled from the spec: \<open>sleep\<close> of utils, which is not under src/; it waits for the
  given time. The logger of the base class writes a line. Both leave an event.
\<close>

definition sleep :: "int \<Rightarrow> 'e service_state \<Rightarrow> 'e service_state" where
  "sleep ms s = s\<lparr>journal := journal s @ [Sleep ms]\<rparr>"

definition logger :: "event \<Rightarrow> 'e service_state \<Rightarrow> 'e service_state" where
  "logger ev s = s\<lparr>journal := journal s @ [ev]\<rparr>"

text \<open>
  \<open>x || d\<close> on a number or \<open>null\<close>: \<open>null\<close> and \<open>0\<close> are falsy and give \<open>d\<close>.
\<close>

definition js_or :: "int option \<Rightarrow> int \<Rightarrow> int" where
  "js_or x d = (case x of None \<Rightarrow> d | Some n \<Rightarrow> if n = 0 then d else n)"

text \<open>
  \<open>Promise.all\<close>: the results in the order of the promises, or a rejection if one of
  them rejects (here the first rejected one in the order of the array).
\<close>

fun Promise_all :: "(error + 'a) list \<Rightarrow> error + 'a list" where
  "Promise_all [] = Inr []"
| "Promise_all (Inl e # ps) = Inl e"
| "Promise_all (Inr x # ps) = (case Promise_all ps of Inl e \<Rightarrow> Inl e | Inr xs \<Rightarrow> Inr (x # xs))"

subsection \<open>\<open>_syncSequencerBlocks\<close>\<close>

text \<open>
  The first half of \<open>_syncSequencerBlocks\<close>, up to the assignment of \<open>blocks\<close>. In legacy
  mode one request per block number from \<open>startBlockNumber\<close> to \<open>endBlockNumber\<close>, both
  included, then the results sorted by block number; otherwise one request for the range.
  The numbers go out through \<open>toRpcHexString\<close>; the journal keeps the numbers.
\<close>

definition fetch_blocks ::
  "L2IngestionServiceOptions \<Rightarrow> 'e world \<Rightarrow> int \<Rightarrow> int \<Rightarrow> 'e service_state
    \<Rightarrow> (error + block list) \<times> 'e service_state" where
  "fetch_blocks opts w startBlockNumber endBlockNumber s =
     (if legacySequencerCompatibility opts then
        (let s1 = s\<lparr>journal := journal s
                    @ map Send_getBlockByNumber [startBlockNumber..endBlockNumber]\<rparr>
         in case Promise_all (map (eth_getBlockByNumber w) [startBlockNumber..endBlockNumber]) of
              Inl e \<Rightarrow> (Inl e, s1)
            | Inr responses \<Rightarrow> (Inr (sort_key number responses), s1))
      else
        (let s1 = s\<lparr>journal := journal s @ [Send_getBlockRange startBlockNumber endBlockNumber]\<rparr>
         in case eth_getBlockRange w startBlockNumber endBlockNumber of
              Inl e \<Rightarrow> (Inl e, s1)
            | Inr blocks \<Rightarrow> (Inr blocks, s1)))"

text \<open>The second half: \<open>for (const block of blocks)\<close>, parse and store.\<close>

fun handle_blocks ::
  "L2IngestionServiceOptions \<Rightarrow> 'e world \<Rightarrow> block list \<Rightarrow> 'e service_state
    \<Rightarrow> (error + unit) \<times> 'e service_state" where
  "handle_blocks opts w [] s = (Inr (), s)"
| "handle_blocks opts w (b # blocks) s =
     (case parseBlock w b (l2ChainId opts) of
        Inl e \<Rightarrow> (Inl e, s)
      | Inr entry \<Rightarrow>
          (case storeBlock w entry s of
             (Inl e, s') \<Rightarrow> (Inl e, s')
           | (Inr u, s') \<Rightarrow> handle_blocks opts w blocks s'))"

definition priv_syncSequencerBlocks ::
  "L2IngestionServiceOptions \<Rightarrow> 'e world \<Rightarrow> int \<Rightarrow> int \<Rightarrow> 'e service_state
    \<Rightarrow> (error + unit) \<times> 'e service_state" where
  "priv_syncSequencerBlocks opts w startBlockNumber endBlockNumber s =
     (if startBlockNumber > endBlockNumber
      then (Inr (), logger (LogCannotQuery startBlockNumber endBlockNumber) s)
      else
        (case fetch_blocks opts w startBlockNumber endBlockNumber s of
           (Inl e, s1) \<Rightarrow> (Inl e, s1)
         | (Inr blocks, s1) \<Rightarrow> handle_blocks opts w blocks s1))"

subsection \<open>\<open>_start\<close>\<close>

text \<open>
  The three numbers the loop computes first: \<open>highestSyncedL2BlockNumber\<close>,
  \<open>currentL2Block\<close> and \<open>targetL2Block\<close>, from what the cursor read and
  \<open>getBlockNumber\<close> answered.
\<close>

definition sync_window :: "L2IngestionServiceOptions \<Rightarrow> int option \<Rightarrow> int \<Rightarrow> int \<times> int \<times> int" where
  "sync_window opts read_cursor height =
     (let highestSyncedL2BlockNumber = js_or read_cursor 1;
          currentL2Block = max (height - 1) 0;
          targetL2Block =
            min (highestSyncedL2BlockNumber + transactionsPerPollingInterval opts) currentL2Block
      in (highestSyncedL2BlockNumber, currentL2Block, targetL2Block))"

text \<open>The body of the \<open>try\<close> block of one iteration.\<close>

definition try_body ::
  "L2IngestionServiceOptions \<Rightarrow> 'e world \<Rightarrow> 'e service_state
    \<Rightarrow> (error + unit) \<times> 'e service_state" where
  "try_body opts w s =
     (case getHighestSyncedUnconfirmedBlock w s of
        Inl e \<Rightarrow> (Inl e, s)
      | Inr read_cursor \<Rightarrow>
          (case getBlockNumber w of
             Inl e \<Rightarrow> (Inl e, s)
           | Inr height \<Rightarrow>
               (case sync_window opts read_cursor height of
                  (highestSyncedL2BlockNumber, currentL2Block, targetL2Block) \<Rightarrow>
                    if highestSyncedL2BlockNumber = targetL2Block
                    then (Inr (), sleep (pollingInterval opts) s)
                    else
                      (case priv_syncSequencerBlocks opts w highestSyncedL2BlockNumber targetL2Block
                              (logger (LogSynchronizing highestSyncedL2BlockNumber targetL2Block) s) of
                         (Inl e, s1) \<Rightarrow> (Inl e, s1)
                       | (Inr u, s1) \<Rightarrow>
                           (case setHighestSyncedUnconfirmedBlock w targetL2Block s1 of
                              (Inl e, s2) \<Rightarrow> (Inl e, s2)
                            | (Inr u, s2) \<Rightarrow>
                                if currentL2Block - highestSyncedL2BlockNumber
                                     < transactionsPerPollingInterval opts
                                then (Inr (), sleep (pollingInterval opts) s2)
                                else (Inr (), s2))))))"

text \<open>One iteration: the \<open>try\<close> block and its \<open>catch\<close>.\<close>

definition loop_iteration ::
  "L2IngestionServiceOptions \<Rightarrow> 'e world \<Rightarrow> 'e service_state
    \<Rightarrow> (error + unit) \<times> 'e service_state" where
  "loop_iteration opts w s =
     (case try_body opts w s of
        (Inr u, s') \<Rightarrow> (Inr (), s')
      | (Inl err, s') \<Rightarrow>
          if \<not> running_in_catch w \<or> dangerouslyCatchAllErrors opts
          then (Inr (), sleep (pollingInterval opts) (logger (LogError err) s'))
          else (Inl err, s'))"


subsection \<open>Views of a run\<close>

fun is_request :: "event \<Rightarrow> bool" where
  "is_request (Send_getBlockByNumber n) = True"
| "is_request (Send_getBlockRange a b) = True"
| "is_request ev = False"

definition requests :: "event list \<Rightarrow> event list" where
  "requests evs = filter is_request evs"

text \<open>The stored cursor does not go down from \<open>c\<close> to \<open>c'\<close>.\<close>

fun cursor_le :: "int option \<Rightarrow> int option \<Rightarrow> bool" where
  "cursor_le None c' = True"
| "cursor_le (Some a) None = False"
| "cursor_le (Some a) (Some b) = (a \<le> b)"



subsection \<open>An endpoint and a decoder that answer\<close>

text \<open>
  Options with a batch size of 5, and collaborators that never fail: the endpoint
  reports the given height and answers every request with the blocks asked for, and the
  decoder takes every block as its own entry.
\<close>

definition example_options :: L2IngestionServiceOptions where
  "example_options =
     \<lparr>l2ChainId = 420, pollingInterval = 5000, transactionsPerPollingInterval = 5,
      dangerouslyCatchAllErrors = False, legacySequencerCompatibility = False\<rparr>"

definition example_world :: "int \<Rightarrow> block world" where
  "example_world height =
     \<lparr>running = True, running_in_catch = True,
      getBlockNumber = Inr height,
      eth_getBlockByNumber = (\<lambda>n. Inr \<lparr>number = n, body = []\<rparr>),
      eth_getBlockRange = (\<lambda>a b. Inr (map (\<lambda>n. \<lparr>number = n, body = []\<rparr>) [a..b])),
      parseBlock = (\<lambda>b chainId. Inr b),
      storeBlock_fault = (\<lambda>entry. None),
      cursor_read_fault = None,
      cursor_write_fault = None\<rparr>"

text \<open>
  An endpoint in legacy mode whose answers carry other numbers than the ones asked for:
  asked for block 2 it answers with block 3, asked for block 3 with block 2.
\<close>

definition legacy_options :: L2IngestionServiceOptions where
  "legacy_options = example_options\<lparr>legacySequencerCompatibility := True\<rparr>"

definition swapping_world :: "block world" where
  "swapping_world =
     (example_world 4)\<lparr>eth_getBlockByNumber := (\<lambda>n. Inr \<lparr>number = 5 - n, body = []\<rparr>)\<rparr>"


section \<open>Properties of the key encoding\<close>

subsection \<open>Fixed-width decimal numerals\<close>

lemma length_fixed_digits [simp]: "length (fixed_digits w n) = w"
  by (induction w arbitrary: n) auto

lemma fixed_digits_zero: "fixed_digits w 0 = replicate w (CHR ''0'')"
proof (induction w)
  case 0
  show ?case by simp
next
  case (Suc w)
  have "digit_char 0 = CHR ''0''"
    by (simp add: digit_char_def char_of_def bit_0)
  with Suc show ?case
    by (simp add: replicate_append_same)
qed

lemma length_BigNumber_toString_le:
  "n < 10 ^ Suc w \<Longrightarrow> length (BigNumber_toString n) \<le> Suc w"
proof (induction w arbitrary: n)
  case 0
  then show ?case by (simp add: BigNumber_toString.simps)
next
  case (Suc w)
  show ?case
  proof (cases "n < 10")
    case True
    then show ?thesis by (simp add: BigNumber_toString.simps)
  next
    case False
    from Suc.prems have "n div 10 < 10 ^ Suc w"
      by (simp add: less_mult_imp_div_less)
    then have "length (BigNumber_toString (n div 10)) \<le> Suc w"
      by (rule Suc.IH)
    with False show ?thesis
      by (subst BigNumber_toString.simps) simp
  qed
qed

lemma pad_zero_eq:
  "padStart t ''0'' s = replicate (t - length s) (CHR ''0'') @ s"
proof -
  have "concat (replicate k ''0'') = replicate k (CHR ''0'')" for k
    by (induction k) auto
  then show ?thesis
    by (simp add: padStart_def)
qed

lemma padded_eq_fixed_digits:
  "n < 10 ^ Suc w \<Longrightarrow> padStart (Suc w) ''0'' (BigNumber_toString n) = fixed_digits (Suc w) n"
proof (induction w arbitrary: n)
  case 0
  then show ?case
    by (simp add: pad_zero_eq BigNumber_toString.simps)
next
  case (Suc w)
  show ?case
  proof (cases "n < 10")
    case True
    then have "n div 10 = 0" "n mod 10 = n"
      by simp_all
    with True show ?thesis
      by (simp add: pad_zero_eq BigNumber_toString.simps fixed_digits_zero
          replicate_append_same)
  next
    case False
    from Suc.prems have small: "n div 10 < 10 ^ Suc w"
      by (simp add: less_mult_imp_div_less)
    then have len: "length (BigNumber_toString (n div 10)) \<le> Suc w"
      by (rule length_BigNumber_toString_le)
    have "padStart (Suc w) ''0'' (BigNumber_toString (n div 10)) = fixed_digits (Suc w) (n div 10)"
      using small by (rule Suc.IH)
    then have "replicate (Suc w - length (BigNumber_toString (n div 10))) (CHR ''0'')
        @ BigNumber_toString (n div 10) = fixed_digits (Suc w) (n div 10)"
      by (simp only: pad_zero_eq)
    moreover have "BigNumber_toString n
        = BigNumber_toString (n div 10) @ [digit_char (n mod 10)]"
      using False by (subst BigNumber_toString.simps) simp
    moreover have "Suc (Suc w) - length (BigNumber_toString n)
        = Suc w - length (BigNumber_toString (n div 10))"
      using len calculation(2) by simp
    ultimately show ?thesis
      by (simp add: pad_zero_eq)
  qed
qed

subsection \<open>Order of fixed-width numerals\<close>

lemma digit_char_less: "a < 10 \<Longrightarrow> b < 10 \<Longrightarrow> digit_char a < digit_char b \<longleftrightarrow> a < b"
  by (simp add: digit_char_def less_char_def)

lemma snoc_less_same_length:
  fixes xs ys :: "'a::linorder list"
  shows "length xs = length ys \<Longrightarrow> xs @ [x] < ys @ [y] \<longleftrightarrow> xs < ys \<or> xs = ys \<and> x < y"
  by (induction xs ys rule: list_induct2) auto

lemma prefix_less_cancel:
  fixes xs ys :: "'a::linorder list"
  shows "p @ xs < p @ ys \<longleftrightarrow> xs < ys"
  by (induction p) auto

lemma less_by_last_digit:
  "(a::nat) < b \<longleftrightarrow> a div 10 < b div 10 \<or> a div 10 = b div 10 \<and> a mod 10 < b mod 10"
proof -
  define qa ra qb rb
    where "qa = a div 10" and "ra = a mod 10" and "qb = b div 10" and "rb = b mod 10"
  have "a = 10 * qa + ra" "b = 10 * qb + rb" "ra < 10" "rb < 10"
    by (simp_all add: qa_def ra_def qb_def rb_def)
  then have "a < b \<longleftrightarrow> qa < qb \<or> qa = qb \<and> ra < rb"
    by arith
  then show ?thesis
    by (simp add: qa_def ra_def qb_def rb_def)
qed

lemma fixed_digits_less:
  "a < 10 ^ w \<Longrightarrow> b < 10 ^ w \<Longrightarrow> fixed_digits w a < fixed_digits w b \<longleftrightarrow> a < b"
proof (induction w arbitrary: a b)
  case 0
  then show ?case by simp
next
  case (Suc w)
  have da: "a div 10 < 10 ^ w" and db: "b div 10 < 10 ^ w"
    using Suc.prems by (simp_all add: less_mult_imp_div_less)
  have ih: "fixed_digits w (a div 10) < fixed_digits w (b div 10) \<longleftrightarrow> a div 10 < b div 10"
    using da db by (rule Suc.IH)
  have eq: "fixed_digits w (a div 10) = fixed_digits w (b div 10) \<longleftrightarrow> a div 10 = b div 10"
    using Suc.IH [OF da db] Suc.IH [OF db da]
    by (metis less_irrefl linorder_neqE_nat)
  have "a < b \<longleftrightarrow> a div 10 < b div 10 \<or> a div 10 = b div 10 \<and> a mod 10 < b mod 10"
    by (rule less_by_last_digit)
  then show ?case
    by (simp add: snoc_less_same_length ih eq digit_char_less)
qed

lemma encoded_less_iff:
  assumes "a < 10 ^ 32" and "b < 10 ^ 32"
  shows "key_text key a < key_text key b \<longleftrightarrow> a < b"
proof -
  have "padStart 32 ''0'' (BigNumber_toString n) = fixed_digits 32 n" if "n < 10 ^ 32" for n
    using padded_eq_fixed_digits [of n 31] that by simp
  with assms show ?thesis
    by (simp add: key_text_def prefix_less_cancel fixed_digits_less)
qed

lemma MAX_SAFE_in_width: "n < MAX_SAFE \<Longrightarrow> n < 10 ^ 32"
  by (simp add: MAX_SAFE_def)

lemma makeKey_Number:
  "priv_makeKey key (Number n) =
     (if MAX_SAFE \<le> n then Inl (NumericFault ''overflow'') else Inr (key_text key n))"
  by (simp add: priv_makeKey_def key_text_def)

lemma makeKey_Text: "priv_makeKey key (Text n) = Inr (key_text key n)"
  by (simp add: priv_makeKey_def key_text_def)

lemma makeKey_NotNumeric: "priv_makeKey key NotNumeric = Inl BigNumberError"
  by (simp add: priv_makeKey_def)

text \<open>
  The comparison with \<open>MAX_SAFE\<close> and \<open>2^53\<close> in a form that evaluates on binary numerals.
\<close>

lemma BigNumber_from_code [code]:
  "BigNumber_from (Number n) =
     (if 9007199254740991 \<le> int n then Inl (NumericFault ''overflow'') else Inr n)"
  "BigNumber_from (Text n) = Inr n"
  "BigNumber_from NotNumeric = Inl BigNumberError"
  by (simp_all add: MAX_SAFE_def)

lemma toNumber_code [code]:
  "toNumber n = (if 9007199254740992 \<le> int n then Inl (NumericFault ''overflow'') else Inr n)"
  by (simp add: toNumber_def)

text \<open>
  Claim C5 (as amended). The key encoding is strictly monotone over the indices the code
  accepts: for indices \<open>a < b\<close> with \<open>b < 2^53 - 1\<close> both keys are built (the namespace, a
  colon and the index in base 10 padded with zeros to 32 digits) and the key of \<open>a\<close> is
  strictly below the key of \<open>b\<close> in the bytewise lexicographic order. For an index from
  \<open>2^53 - 1\<close> on \<open>_makeKey\<close> raises the overflow of \<open>BigNumber.from\<close> and builds no key.
\<close>

theorem makeKey_strictly_monotone:
  "(a < b \<longrightarrow> b < MAX_SAFE \<longrightarrow>
      (\<exists>ka kb. priv_makeKey key (Number a) = Inr ka \<and> priv_makeKey key (Number b) = Inr kb
         \<and> ka = key @ '':'' @ padStart 32 ''0'' (BigNumber_toString a)
         \<and> kb = key @ '':'' @ padStart 32 ''0'' (BigNumber_toString b)
         \<and> length ka = length key + 33 \<and> length kb = length key + 33
         \<and> ka < kb))
    \<and> (MAX_SAFE \<le> i \<longrightarrow> priv_makeKey key (Number i) = Inl (NumericFault ''overflow''))"
proof (intro conjI impI)
  assume ab: "a < b" and b: "b < MAX_SAFE"
  then have wa: "a < 10 ^ 32" and wb: "b < 10 ^ 32"
    by (simp_all add: MAX_SAFE_def)
  have len: "length (key_text key n) = length key + 33" if "n < 10 ^ 32" for n
    using padded_eq_fixed_digits [of n 31] that by (simp add: key_text_def)
  from ab b wa wb encoded_less_iff [OF wa wb, of key] len [OF wa] len [OF wb]
  show "\<exists>ka kb. priv_makeKey key (Number a) = Inr ka \<and> priv_makeKey key (Number b) = Inr kb
         \<and> ka = key @ '':'' @ padStart 32 ''0'' (BigNumber_toString a)
         \<and> kb = key @ '':'' @ padStart 32 ''0'' (BigNumber_toString b)
         \<and> length ka = length key + 33 \<and> length kb = length key + 33
         \<and> ka < kb"
    by (simp add: makeKey_Number) (simp add: key_text_def)
next
  assume "MAX_SAFE \<le> i"
  then show "priv_makeKey key (Number i) = Inl (NumericFault ''overflow'')"
    by (simp add: makeKey_Number)
qed

theorem makeKey_strictly_monotone_witness:
  "(9::nat) < 10 \<and> (10::nat) < MAX_SAFE
    \<and> (\<exists>ka kb. priv_makeKey ''enqueue:index'' (Number 9) = Inr ka
          \<and> priv_makeKey ''enqueue:index'' (Number 10) = Inr kb
          \<and> ka = ''enqueue:index'' @ '':'' @ padStart 32 ''0'' (BigNumber_toString 9)
          \<and> kb = ''enqueue:index'' @ '':'' @ padStart 32 ''0'' (BigNumber_toString 10)
          \<and> length ka = length ''enqueue:index'' + 33 \<and> length kb = length ''enqueue:index'' + 33
          \<and> ka < kb)
    \<and> MAX_SAFE \<le> 9007199254740992
    \<and> priv_makeKey ''enqueue:index'' (Number 9007199254740992) = Inl (NumericFault ''overflow'')
    \<and> priv_makeKey ''enqueue:index'' (Number 10) = Inr ''enqueue:index:00000000000000000000000000000010''"
proof -
  have a: "(9::nat) < 10" and b: "(10::nat) < MAX_SAFE" and c: "MAX_SAFE \<le> 9007199254740992"
    by (simp_all add: MAX_SAFE_def)
  have d: "priv_makeKey ''enqueue:index'' (Number 10) = Inr ''enqueue:index:00000000000000000000000000000010''"
    by code_simp
  note inst = makeKey_strictly_monotone [of 9 10 "''enqueue:index''" 9007199254740992]
  from inst [THEN conjunct1, rule_format, OF a b] inst [THEN conjunct2, rule_format, OF c] a b c d
  show ?thesis
    by (intro conjI)
qed

text \<open>
  The claim as stated fails: 5 and \<open>2^53 - 1\<close> are indices \<open>a < b\<close> with \<open>b < 10^32\<close>, and
  for \<open>b\<close> no key is built.
\<close>

theorem makeKey_overflow_counterexample:
  "(5::nat) < 9007199254740991 \<and> (9007199254740991::nat) < 10 ^ 32
    \<and> priv_makeKey ''enqueue:index'' (Number 5) = Inr ''enqueue:index:00000000000000000000000000000005''
    \<and> priv_makeKey ''enqueue:index'' (Number 9007199254740991) = Inl (NumericFault ''overflow'')"
proof -
  have "priv_makeKey ''enqueue:index'' (Number 5) = Inr ''enqueue:index:00000000000000000000000000000005''"
    by code_simp
  then show ?thesis
    by (simp add: makeKey_Number MAX_SAFE_def)
qed

section \<open>Properties of TransportDB\<close>

subsection \<open>Keys are injective\<close>

lemma digits_value_snoc: "digits_value (s @ [c]) = 10 * digits_value s + (of_char c - 48)"
  by (simp add: digits_value_def)

lemma of_digit_char: "d < 10 \<Longrightarrow> of_char (digit_char d) - 48 = d"
  by (simp add: digit_char_def)

lemma digits_value_toString: "digits_value (BigNumber_toString n) = n"
proof (induction n rule: BigNumber_toString.induct)
  case (1 n)
  show ?case
  proof (cases "n < 10")
    case True
    then show ?thesis
      by (subst BigNumber_toString.simps) (simp add: digits_value_def of_digit_char)
  next
    case False
    then have "digits_value (BigNumber_toString (n div 10)) = n div 10"
      by (rule "1.IH")
    with False show ?thesis
      by (subst BigNumber_toString.simps) (simp add: digits_value_snoc of_digit_char)
  qed
qed

lemma digits_value_zeros: "digits_value (replicate k (CHR ''0'') @ s) = digits_value s"
proof -
  have "foldl (\<lambda>acc c. 10 * acc + (of_char c - 48)) 0 (replicate k (CHR ''0'')) = (0::nat)"
    by (induction k) simp_all
  then show ?thesis
    by (simp add: digits_value_def)
qed

lemma digits_value_padded: "digits_value (padStart t ''0'' (BigNumber_toString n)) = n"
  by (simp add: pad_zero_eq digits_value_zeros digits_value_toString)

lemma key_text_inj: "key_text key a = key_text key b \<longleftrightarrow> a = b"
proof
  assume "key_text key a = key_text key b"
  then have "padStart 32 ''0'' (BigNumber_toString a) = padStart 32 ''0'' (BigNumber_toString b)"
    by (simp add: key_text_def)
  then have "digits_value (padStart 32 ''0'' (BigNumber_toString a))
      = digits_value (padStart 32 ''0'' (BigNumber_toString b))"
    by (rule arg_cong)
  then show "a = b"
    by (simp only: digits_value_padded)
qed simp

lemma map_of_upsert: "map_of (upsert k v t) = (map_of t)(k \<mapsto> v)"
  by (induction t) (auto simp: fun_eq_iff)

lemma map_of_fold_upsert:
  "map_of (fold (\<lambda>(k, v). upsert k v) ops t) = map_of t ++ map_of (rev ops)"
proof (induction ops arbitrary: t)
  case Nil
  show ?case by simp
next
  case (Cons kv ops)
  obtain k v where kv: "kv = (k, v)"
    by (cases kv)
  have "map_of (fold (\<lambda>(k, v). upsert k v) (kv # ops) t)
      = map_of (upsert k v t) ++ map_of (rev ops)"
    by (simp add: kv Cons.IH)
  also have "\<dots> = map_of t ++ ([k \<mapsto> v] ++ map_of (rev ops))"
    by (simp add: map_of_upsert fun_eq_iff map_add_def split: option.splits)
  finally show ?case
    by (simp add: kv)
qed

subsection \<open>Building the batch\<close>

lemma array_map_all:
  "\<forall>x \<in> set xs. f x = Inr (g x) \<Longrightarrow> array_map f xs = Inr (map g xs)"
  by (induction xs) simp_all

lemma array_map_fails:
  assumes "\<forall>x \<in> set xs. f x = Inr (g x) \<or> f x = Inl e" and "\<exists>x \<in> set xs. f x = Inl e"
  shows "array_map f xs = Inl e"
  using assms
proof (induction xs)
  case Nil
  then show ?case by simp
next
  case (Cons x xs)
  show ?case
  proof (cases "f x")
    case (Inl e')
    with Cons.prems(1) show ?thesis by auto
  next
    case (Inr y)
    with Cons.prems have "\<exists>x \<in> set xs. f x = Inl e"
      by auto
    with Cons.prems(1) have "array_map f xs = Inl e"
      by (intro Cons.IH) auto
    with Inr show ?thesis by simp
  qed
qed

lemma putBatch_accepted:
  assumes "\<forall>e \<in> set entries. index e < MAX_SAFE"
  shows "priv_putBatch db (index_namespace k) entries = db_batch db (entry_puts k entries)"
proof -
  have "array_map
      (\<lambda>element. case priv_makeKey (index_namespace k) (Number (index element)) of
          Inl e \<Rightarrow> Inl e | Inr key \<Rightarrow> Inr (key, Obj element)) entries
    = Inr (map (\<lambda>element. (key_text (index_namespace k) (index element), Obj element)) entries)"
    using assms by (intro array_map_all) (simp add: makeKey_Number not_le)
  then show ?thesis
    by (simp add: priv_putBatch_def entry_puts_def)
qed

lemma putBatch_overflow:
  assumes "\<exists>e \<in> set entries. MAX_SAFE \<le> index e"
  shows "priv_putBatch db key entries = (Inl (NumericFault ''overflow''), db)"
proof -
  have "array_map
      (\<lambda>element. case priv_makeKey key (Number (index element)) of
          Inl e \<Rightarrow> Inl e | Inr k \<Rightarrow> Inr (k, Obj element)) entries
    = Inl (NumericFault ''overflow'')"
  proof (rule array_map_fails)
    show "\<forall>x \<in> set entries.
        (case priv_makeKey key (Number (index x)) of Inl e \<Rightarrow> Inl e | Inr k \<Rightarrow> Inr (k, Obj x))
          = Inr (key_text key (index x), Obj x)
        \<or> (case priv_makeKey key (Number (index x)) of Inl e \<Rightarrow> Inl e | Inr k \<Rightarrow> Inr (k, Obj x))
          = Inl (NumericFault ''overflow'')"
      by (simp add: makeKey_Number)
    from assms show "\<exists>x \<in> set entries.
        (case priv_makeKey key (Number (index x)) of Inl e \<Rightarrow> Inl e | Inr k \<Rightarrow> Inr (k, Obj x))
          = Inl (NumericFault ''overflow'')"
      by (auto simp: makeKey_Number)
  qed
  then show ?thesis
    by (simp add: priv_putBatch_def)
qed

subsection \<open>Writes followed by reads\<close>

lemma putIndexed_unfold:
  "putIndexed k db entries =
     (case priv_putBatch db (index_namespace k) entries of
        (Inl e, db') \<Rightarrow> (Inl e, db')
      | (Inr u, db') \<Rightarrow>
          (case last_index entries of
             Inl e \<Rightarrow> (Inl e, db')
           | Inr i \<Rightarrow> db_put db' (latest_key k) (Num i)))"
  by (induction k)
    (simp_all add: putEnqueueEntries_def putTransactionEntries_def
      putTransactionBatchEntries_def putStateRootEntries_def putStateRootBatchEntries_def
      split: prod.split sum.split)

lemma getByIndex_unfold:
  "getByIndex k db i =
     (case priv_makeKey (index_namespace k) i of Inl e \<Rightarrow> Inl e | Inr key \<Rightarrow> db_get db key)"
  by (induction k)
    (simp_all add: getEnqueueByIndex_def getTransactionByIndex_def
      getTransactionBatchByIndex_def getStateRootByIndex_def getStateRootBatchByIndex_def
      priv_get_def)

lemma getByIndex_Number:
  "getByIndex k db (Number i) =
     (if MAX_SAFE \<le> i then Inl (NumericFault ''overflow'')
      else db_get db (key_text (index_namespace k) i))"
  by (simp add: getByIndex_unfold makeKey_Number)

lemma getByIndex_Text: "getByIndex k db (Text i) = db_get db (key_text (index_namespace k) i)"
  by (simp add: getByIndex_unfold makeKey_Text)

lemma getLatest_unfold:
  "getLatest k db =
     (case db_get db (latest_key k) of
        Inl e \<Rightarrow> Inl e
      | Inr v \<Rightarrow> getByIndex k db (read_back v))"
  by (induction k)
    (simp_all add: getLatestEnqueue_def getLatestTransaction_def
      getLatestTransactionBatch_def getLatestStateRoot_def getLatestStateRootBatch_def
      get_at_pointer_def split: sum.split)

lemma latest_key_not_indexed: "key_text (index_namespace k) i \<noteq> latest_key k"
  by (induction k) (simp_all add: key_text_def)

lemma putIndexed_overflow:
  "\<exists>e \<in> set entries. MAX_SAFE \<le> index e
    \<Longrightarrow> putIndexed k db entries = (Inl (NumericFault ''overflow''), db)"
  by (simp add: putIndexed_unfold putBatch_overflow)

lemma putIndexed_empty:
  "putIndexed k db [] = (Inl (case fault db of None \<Rightarrow> TypeError | Some e \<Rightarrow> e), db)"
  by (simp add: putIndexed_unfold priv_putBatch_def db_batch_def last_index_def
      split: option.split)

lemma putIndexed_faulty:
  "fault db = Some err \<Longrightarrow> \<forall>e \<in> set entries. index e < MAX_SAFE
    \<Longrightarrow> putIndexed k db entries = (Inl err, db)"
  by (simp add: putIndexed_unfold putBatch_accepted db_batch_def)

lemma putIndexed_working:
  assumes "fault db = None" and "entries \<noteq> []" and "\<forall>e \<in> set entries. index e < MAX_SAFE"
  shows "putIndexed k db entries =
      (Inr (), db\<lparr>table := upsert (latest_key k) (Num (index (last entries)))
                  (fold (\<lambda>(k, v). upsert k v) (entry_puts k entries) (table db))\<rparr>)"
  using assms
  by (simp add: putIndexed_unfold putBatch_accepted db_batch_def last_index_def db_put_def)

text \<open>A write either succeeds on a working store or leaves the store as it was.\<close>

lemma putIndexed_cases:
  "(fault db = None \<and> entries \<noteq> [] \<and> (\<forall>e \<in> set entries. index e < MAX_SAFE)
      \<and> fst (putIndexed k db entries) = Inr ())
    \<or> ((\<exists>err. fst (putIndexed k db entries) = Inl err) \<and> snd (putIndexed k db entries) = db)"
proof (cases "\<forall>e \<in> set entries. index e < MAX_SAFE")
  case False
  then have "\<exists>e \<in> set entries. MAX_SAFE \<le> index e"
    by (auto simp: not_less)
  then show ?thesis
    by (simp add: putIndexed_overflow)
next
  case True
  show ?thesis
  proof (cases "fault db")
    case (Some err)
    with True show ?thesis
      by (simp add: putIndexed_faulty)
  next
    case None
    show ?thesis
    proof (cases "entries = []")
      case True
      then show ?thesis
        by (simp add: putIndexed_empty)
    next
      case False
      with None True show ?thesis
        by (simp add: putIndexed_working)
    qed
  qed
qed

lemma putIndexed_succeeded:
  assumes "putIndexed k db entries = (Inr u, db')"
  shows "fault db = None" and "entries \<noteq> []" and "\<forall>e \<in> set entries. index e < MAX_SAFE"
  using putIndexed_cases [of db entries k] assms by auto

lemma db_get_after_put:
  assumes "fault db = None" and "entries \<noteq> []" and "\<forall>e \<in> set entries. index e < MAX_SAFE"
  shows "db_get (snd (putIndexed k db entries)) key =
      (case ((map_of (table db) ++ map_of (rev (entry_puts k entries)))
              (latest_key k \<mapsto> Num (index (last entries)))) key of
         None \<Rightarrow> Inl NotFoundError | Some v \<Rightarrow> Inr v)"
  using assms
  by (simp add: putIndexed_working db_get_def map_of_upsert map_of_fold_upsert)

lemma map_of_entry_puts:
  assumes "distinct (map index entries)" and "e \<in> set entries"
  shows "map_of (rev (entry_puts k entries)) (key_text (index_namespace k) (index e)) = Some (Obj e)"
proof (rule map_of_is_SomeI)
  have "inj_on (key_text (index_namespace k)) (set (map index entries))"
    by (simp add: inj_on_def key_text_inj)
  with assms(1) have "distinct (map (key_text (index_namespace k)) (map index entries))"
    by (simp only: distinct_map)
  then show "distinct (map fst (rev (entry_puts k entries)))"
    by (simp add: entry_puts_def rev_map [symmetric] comp_def)
  show "(key_text (index_namespace k) (index e), Obj e) \<in> set (rev (entry_puts k entries))"
    using assms(2) by (auto simp: entry_puts_def)
qed

lemma last_is_Max:
  assumes "sorted_wrt (<) (map index entries)" and "entries \<noteq> []"
  shows "index (last entries) = Max (index ` set entries)"
proof -
  have "\<forall>e \<in> set entries. index e \<le> index (last entries)"
    using assms
  proof (induction entries)
    case Nil
    then show ?case by simp
  next
    case (Cons x xs)
    then show ?case
      by (cases "xs = []") (auto simp: less_imp_le)
  qed
  moreover have "index (last entries) \<in> index ` set entries"
    using assms(2) by simp
  ultimately show ?thesis
    by (intro Max_eqI [symmetric]) auto
qed

lemma reads_after_put:
  assumes put: "putIndexed k db entries = (Inr (), db')"
    and inc: "sorted_wrt (<) (map index entries)"
  shows "\<forall>e \<in> set entries. getByIndex k db' (Number (index e)) = Inr (Obj e)"
    and "db_get db' (latest_key k) = Inr (Num (Max (index ` set entries)))"
    and "getLatest k db' = Inr (Obj (last entries))"
proof -
  note ok = putIndexed_succeeded [OF put]
  have db': "db' = snd (putIndexed k db entries)"
    by (simp add: put)
  have dist: "distinct (map index entries)"
    using inc by (simp add: strict_sorted_iff)
  have at: "db_get db' (key_text (index_namespace k) (index e)) = Inr (Obj e)"
    if "e \<in> set entries" for e
    using that ok
    by (simp add: db' db_get_after_put latest_key_not_indexed map_add_def
        map_of_entry_puts [OF dist])
  show get: "\<forall>e \<in> set entries. getByIndex k db' (Number (index e)) = Inr (Obj e)"
    using at ok(3) by (simp add: getByIndex_Number not_le [symmetric])
  have ptr: "db_get db' (latest_key k) = Inr (Num (index (last entries)))"
    using ok by (simp add: db' db_get_after_put)
  with last_is_Max [OF inc ok(2)]
  show "db_get db' (latest_key k) = Inr (Num (Max (index ` set entries)))"
    by simp
  show "getLatest k db' = Inr (Obj (last entries))"
    using ok(2) at [of "last entries"] by (simp add: getLatest_unfold ptr getByIndex_Text)
qed

text \<open>
  Claim C4. For every non-empty sequence with strictly increasing indices that an indexed
  batch write has written (the write returned without an error, which it does on a working
  store when every index is below \<open>2^53 - 1\<close>), afterwards every index of the sequence is
  retrievable with the kind's \<open>get...ByIndex\<close> and gives the record written at it, the
  kind's latest pointer is the maximum index of the sequence, and \<open>getLatest...\<close> gives
  the record at it.
\<close>

theorem putIndexed_then_get:
  assumes "entries \<noteq> []" and "sorted_wrt (<) (map index entries)"
  shows "(fault db = None \<and> (\<forall>e \<in> set entries. index e < MAX_SAFE)
          \<longrightarrow> (\<exists>db'. putIndexed k db entries = (Inr (), db')))
    \<and> (\<forall>db'. putIndexed k db entries = (Inr (), db') \<longrightarrow>
          (\<forall>e \<in> set entries. getByIndex k db' (Number (index e)) = Inr (Obj e))
          \<and> db_get db' (latest_key k) = Inr (Num (Max (index ` set entries)))
          \<and> getLatest k db' = Inr (Obj (last entries)))"
  using assms putIndexed_working [of db entries k] reads_after_put [of k db entries]
  by blast

theorem putIndexed_then_get_witness:
  "[\<lparr>index = 3\<rparr>, \<lparr>index = 7\<rparr>] \<noteq> ([] :: Indexed list)
    \<and> sorted_wrt (<) (map index [\<lparr>index = 3\<rparr>, \<lparr>index = 7\<rparr> :: Indexed])
    \<and> fault (db_empty :: Indexed LevelUP) = None
    \<and> list_all (\<lambda>e. index e < MAX_SAFE) [\<lparr>index = 3\<rparr>, \<lparr>index = 7\<rparr> :: Indexed]
    \<and> (\<exists>db'. putIndexed StateRoot db_empty [\<lparr>index = 3\<rparr>, \<lparr>index = 7\<rparr> :: Indexed] = (Inr (), db')
      \<and> getByIndex StateRoot db' (Number 3) = Inr (Obj \<lparr>index = 3\<rparr>)
      \<and> getByIndex StateRoot db' (Number 7) = Inr (Obj \<lparr>index = 7\<rparr>)
      \<and> db_get db' (latest_key StateRoot) = Inr (Num 7)
      \<and> getLatest StateRoot db' = Inr (Obj \<lparr>index = 7\<rparr>))"
proof -
  let ?es = "[\<lparr>index = 3\<rparr>, \<lparr>index = 7\<rparr> :: Indexed]"
  have ne: "?es \<noteq> []" and inc: "sorted_wrt (<) (map index ?es)"
    and ok: "fault (db_empty :: Indexed LevelUP) = None"
    and small: "list_all (\<lambda>e. index e < MAX_SAFE) ?es"
    by (simp_all add: db_empty_def MAX_SAFE_def)
  note inst = putIndexed_then_get [OF ne inc, of db_empty StateRoot]
  from inst ok small obtain db' where put: "putIndexed StateRoot db_empty ?es = (Inr (), db')"
    by (auto simp: list_all_iff)
  with inst have "(\<forall>e \<in> set ?es. getByIndex StateRoot db' (Number (index e)) = Inr (Obj e))
      \<and> db_get db' (latest_key StateRoot) = Inr (Num (Max (index ` set ?es)))
      \<and> getLatest StateRoot db' = Inr (Obj (last ?es))"
    by blast
  with put ne inc ok small show ?thesis
    by auto
qed

subsection \<open>What a write checks\<close>




subsection \<open>The scan cursor\<close>

text \<open>
  Claim C10. For every watcher name \<open>getLastScannedEventBlock\<close> returns and never
  raises; whenever the lookup in the store fails, with a missing key or with any other
  error, it returns \<open>null\<close>, so a failed read looks like an absent cursor. A stored
  number below \<open>2^53 - 1\<close> is returned as it is, and one from \<open>2^53\<close> on gives \<open>null\<close> as
  well, \<open>toNumber\<close> raising inside the \<open>try\<close>.
\<close>

theorem getLastScannedEventBlock_never_raises:
  "(\<exists>r. getLastScannedEventBlock db event = Inr r)
    \<and> (\<forall>err. db_get db (''event:latest:'' @ event) = Inl err
          \<longrightarrow> getLastScannedEventBlock db event = Inr None)
    \<and> (\<forall>n. db_get db (''event:latest:'' @ event) = Inr (Num n) \<longrightarrow> n < MAX_SAFE
          \<longrightarrow> getLastScannedEventBlock db event = Inr (Some n))
    \<and> (\<forall>n. db_get db (''event:latest:'' @ event) = Inr (Num n) \<longrightarrow> 9007199254740992 \<le> n
          \<longrightarrow> getLastScannedEventBlock db event = Inr None)"
  by (auto simp: getLastScannedEventBlock_def try_catch_def toNumber_def MAX_SAFE_def
      split: sum.splits)

theorem getLastScannedEventBlock_never_raises_witness:
  "db_get (db_empty :: Indexed LevelUP) (''event:latest:'' @ ''watcher'') = Inl NotFoundError
    \<and> db_get (db_empty\<lparr>fault := Some (StorageError ''closed'')\<rparr> :: Indexed LevelUP)
          (''event:latest:'' @ ''watcher'') = Inl (StorageError ''closed'')
    \<and> getLastScannedEventBlock (db_empty :: Indexed LevelUP) ''watcher'' = Inr None
    \<and> getLastScannedEventBlock (db_empty\<lparr>fault := Some (StorageError ''closed'')\<rparr> :: Indexed LevelUP)
          ''watcher'' = Inr None
    \<and> db_get (snd (putLastScannedEventBlock (db_empty :: Indexed LevelUP) ''watcher'' 42))
          (''event:latest:'' @ ''watcher'') = Inr (Num 42)
    \<and> (42 :: nat) < MAX_SAFE
    \<and> getLastScannedEventBlock (snd (putLastScannedEventBlock (db_empty :: Indexed LevelUP) ''watcher'' 42))
          ''watcher'' = Inr (Some 42)
    \<and> db_get (snd (putLastScannedEventBlock (db_empty :: Indexed LevelUP) ''watcher'' 9007199254740992))
          (''event:latest:'' @ ''watcher'') = Inr (Num 9007199254740992)
    \<and> getLastScannedEventBlock
          (snd (putLastScannedEventBlock (db_empty :: Indexed LevelUP) ''watcher'' 9007199254740992))
          ''watcher'' = Inr None"
  using getLastScannedEventBlock_never_raises [of "db_empty :: Indexed LevelUP" "''watcher''"]
    getLastScannedEventBlock_never_raises
      [of "db_empty\<lparr>fault := Some (StorageError ''closed'')\<rparr> :: Indexed LevelUP" "''watcher''"]
    getLastScannedEventBlock_never_raises
      [of "snd (putLastScannedEventBlock (db_empty :: Indexed LevelUP) ''watcher'' 42)" "''watcher''"]
    getLastScannedEventBlock_never_raises
      [of "snd (putLastScannedEventBlock (db_empty :: Indexed LevelUP) ''watcher'' 9007199254740992)"
        "''watcher''"]
  by (simp add: db_get_def db_empty_def putLastScannedEventBlock_def db_put_def MAX_SAFE_def)

subsection \<open>The table stays sorted and every indexed key stays well formed\<close>

lemma set_upsert: "set (upsert k v t) \<subseteq> insert (k, v) (set t)"
  by (induction t) (auto split: if_splits)

lemma sorted_upsert:
  "sorted_wrt (<) (map fst t) \<Longrightarrow> sorted_wrt (<) (map fst (upsert k v t))"
proof (induction t)
  case Nil
  show ?case by simp
next
  case (Cons p t)
  obtain k' v' where p: "p = (k', v')"
    by (cases p)
  from Cons.prems have tail: "sorted_wrt (<) (map fst t)" and head: "\<forall>x \<in> set t. k' < fst x"
    by (simp_all add: p)
  consider "k < k'" | "k = k'" | "k' < k"
    by (rule linorder_cases)
  then show ?case
  proof cases
    case 1
    with head have "\<forall>x \<in> set t. k < fst x"
      by (auto intro: less_trans)
    with 1 Cons.prems show ?thesis
      by (simp add: p)
  next
    case 2
    with Cons.prems show ?thesis
      by (simp add: p)
  next
    case 3
    have "\<forall>x \<in> set (upsert k v t). k' < fst x"
      using set_upsert [of k v t] head 3 by auto
    moreover from 3 have "\<not> k < k'" and "k \<noteq> k'"
      by auto
    ultimately show ?thesis
      using Cons.IH [OF tail] by (simp add: p)
  qed
qed

lemma table_ok_upsert:
  "table_ok k t \<Longrightarrow> pair_ok k (key, v) \<Longrightarrow> table_ok k (upsert key v t)"
  using set_upsert [of key v t]
  by (auto simp: table_ok_def sorted_upsert list_all_iff)

lemma table_ok_fold:
  "table_ok k t \<Longrightarrow> list_all (pair_ok k) ops \<Longrightarrow> table_ok k (fold (\<lambda>(k, v). upsert k v) ops t)"
proof (induction ops arbitrary: t)
  case Nil
  then show ?case by simp
next
  case (Cons p ops)
  obtain key v where p: "p = (key, v)"
    by (cases p)
  from Cons.prems have "table_ok k (upsert key v t)"
    by (simp add: p table_ok_upsert)
  moreover from Cons.prems have "list_all (pair_ok k) ops"
    by simp
  ultimately show ?case
    by (simp add: p Cons.IH)
qed

lemma namespace_prefix_iff:
  "prefix (index_namespace k @ '':'') (key_text (index_namespace k') i) \<longleftrightarrow> k = k'"
  by (cases k; cases k'; simp add: key_text_def)

lemma latest_key_outside: "\<not> prefix (index_namespace k @ '':'') (latest_key k')"
  by (cases k; cases k'; simp)

lemma event_pair_ok: "pair_ok k (''event:latest:'' @ event, Num block)"
  by (cases k; simp)

lemma entry_puts_ok:
  "\<forall>e \<in> set entries. index e < MAX_SAFE \<Longrightarrow> list_all (pair_ok k) (entry_puts k' entries)"
  by (auto simp: entry_puts_def list_all_iff namespace_prefix_iff)

lemma store_ok_putIndexed:
  assumes "store_ok k db"
  shows "store_ok k (snd (putIndexed k' db entries))"
proof (cases "fault db = None \<and> entries \<noteq> [] \<and> (\<forall>e \<in> set entries. index e < MAX_SAFE)")
  case False
  with putIndexed_cases [of db entries k'] have "snd (putIndexed k' db entries) = db"
    by auto
  with assms show ?thesis
    by simp
next
  case True
  have "table_ok k (fold (\<lambda>(k, v). upsert k v) (entry_puts k' entries) (table db))"
    using assms True by (simp add: store_ok_def table_ok_fold entry_puts_ok)
  then have "table_ok k (upsert (latest_key k') (Num (index (last entries)))
      (fold (\<lambda>(k, v). upsert k v) (entry_puts k' entries) (table db)))"
    by (rule table_ok_upsert) (simp add: latest_key_outside)
  with assms True show ?thesis
    by (simp add: store_ok_def putIndexed_working)
qed

lemma store_ok_perform:
  assumes "store_ok k db"
  shows "store_ok k (perform w db)"
proof (cases w)
  case (PutEnqueueEntries entries)
  with assms store_ok_putIndexed [of k db Enqueue entries] show ?thesis by simp
next
  case (PutTransactionEntries entries)
  with assms store_ok_putIndexed [of k db Transaction entries] show ?thesis by simp
next
  case (PutTransactionBatchEntries entries)
  with assms store_ok_putIndexed [of k db TransactionBatch entries] show ?thesis by simp
next
  case (PutStateRootEntries entries)
  with assms store_ok_putIndexed [of k db StateRoot entries] show ?thesis by simp
next
  case (PutStateRootBatchEntries entries)
  with assms store_ok_putIndexed [of k db StateRootBatch entries] show ?thesis by simp
next
  case (PutLastScannedEventBlock event block)
  have "table_ok k (upsert (''event:latest:'' @ event) (Num block) (table db))"
  proof (rule table_ok_upsert)
    show "table_ok k (table db)"
      using assms by (simp add: store_ok_def)
    show "pair_ok k (''event:latest:'' @ event, Num block)"
      by (rule event_pair_ok)
  qed
  with assms PutLastScannedEventBlock show ?thesis
    by (simp add: store_ok_def putLastScannedEventBlock_def db_put_def)
qed

lemma store_ok_fold: "store_ok k db \<Longrightarrow> store_ok k (fold perform ws db)"
  by (induction ws arbitrary: db) (simp_all add: store_ok_perform)

lemma store_ok_replay: "store_ok k (replay ws)"
  unfolding replay_def
  by (rule store_ok_fold) (simp add: store_ok_def table_ok_def db_empty_def)

subsection \<open>Range queries\<close>

lemma sandwich_prefix:
  fixes p :: "'a::linorder list"
  shows "p @ a \<le> key \<Longrightarrow> key < p @ b \<Longrightarrow> prefix p key"
proof (induction p arbitrary: key)
  case Nil
  show ?case by simp
next
  case (Cons x p)
  from Cons.prems(1) obtain y key' where key: "key = y # key'"
    by (cases key) auto
  from Cons.prems have "y = x" "p @ a \<le> key'" "key' < p @ b"
    by (auto simp: key)
  with Cons.IH show ?case
    by (simp add: key)
qed

lemma in_range_iff:
  assumes "s < MAX_SAFE" and "e < MAX_SAFE" and "i < MAX_SAFE"
  shows "key_text key s \<le> key_text key i \<and> key_text key i < key_text key e
    \<longleftrightarrow> s \<le> i \<and> i < e"
proof -
  note w = assms [THEN MAX_SAFE_in_width]
  have "key_text key s \<le> key_text key i \<longleftrightarrow> s \<le> i"
    using encoded_less_iff [OF w(3) w(1), of key] by (simp add: not_less [symmetric])
  with encoded_less_iff [OF w(3) w(2), of key] show ?thesis
    by simp
qed

lemma ex_list_all2: "\<forall>x \<in> set xs. \<exists>y. Q x y \<Longrightarrow> \<exists>ys. list_all2 Q xs ys"
proof (induction xs)
  case Nil
  show ?case by simp
next
  case (Cons x xs)
  then obtain y ys where "Q x y" "list_all2 Q xs ys"
    by auto
  then have "list_all2 Q (x # xs) (y # ys)"
    by simp
  then show ?case ..
qed

lemma pair_ok_in_namespace:
  assumes "pair_ok k (key, v)" and "prefix (index_namespace k @ '':'') key"
  shows "\<exists>r. v = Obj r \<and> key = key_text (index_namespace k) (index r) \<and> index r < MAX_SAFE"
  using assms by (cases v) auto

lemma values_accepted:
  "s < MAX_SAFE \<Longrightarrow> e < MAX_SAFE \<Longrightarrow>
    priv_values db key s e = db_createValueStream db (key_text key s) (key_text key e)"
  by (simp add: priv_values_def makeKey_Number)

lemma values_overflow:
  "MAX_SAFE \<le> s \<or> MAX_SAFE \<le> e \<Longrightarrow> priv_values db key s e = Inl (NumericFault ''overflow'')"
  by (auto simp: priv_values_def makeKey_Number)

lemma values_exact:
  assumes ok: "store_ok k db" and s: "s < MAX_SAFE" and e: "e < MAX_SAFE"
  shows "\<exists>rs. priv_values db (index_namespace k) s e = Inr (map Obj rs)
      \<and> sorted_wrt (<) (map index rs)
      \<and> set rs = {r. s \<le> index r \<and> index r < e
            \<and> getByIndex k db (Number (index r)) = Inr (Obj r)}"
proof -
  define ns where "ns = index_namespace k"
  define lo hi where "lo = key_text ns s" and "hi = key_text ns e"
  define T where "T = filter (\<lambda>(key, v). lo \<le> key \<and> key < hi) (table db)"
  define Q where "Q = (\<lambda>(p :: string \<times> ('a Indexed_scheme) js_value) r.
      p = (key_text ns (index r), Obj r) \<and> index r < MAX_SAFE)"
  from ok have healthy: "fault db = None"
    and sorted: "sorted_wrt (<) (map fst (table db))"
    and pairs: "\<forall>p \<in> set (table db). pair_ok k p"
    by (simp_all add: store_ok_def table_ok_def list_all_iff)
  have dist: "distinct (map fst (table db))"
    using sorted by (simp add: strict_sorted_iff)
  have "\<exists>r. Q p r" if "p \<in> set T" for p
  proof -
    obtain key v where p: "p = (key, v)"
      by (cases p)
    from that have mem: "(key, v) \<in> set (table db)" and "lo \<le> key" "key < hi"
      by (simp_all add: T_def p)
    then have "prefix (ns @ '':'') key"
      using sandwich_prefix [of "ns @ '':''" _ key]
      by (simp add: lo_def hi_def key_text_def)
    with pairs mem show ?thesis
      using pair_ok_in_namespace [of k key v] by (auto simp: Q_def p ns_def)
  qed
  then obtain rs where rs: "list_all2 Q T rs"
    using ex_list_all2 [of T Q] by blast
  have T_eq: "T = map (\<lambda>r. (key_text ns (index r), Obj r)) rs"
    and sup: "\<forall>r \<in> set rs. index r < MAX_SAFE"
    using rs by (induction rule: list_all2_induct) (simp_all add: Q_def)
  have res: "priv_values db (index_namespace k) s e = Inr (map Obj rs)"
    using healthy
    by (simp add: values_accepted [OF s e] db_createValueStream_def T_def [symmetric]
        lo_def [symmetric] hi_def [symmetric] ns_def [symmetric] T_eq comp_def)
  have "sorted_wrt (<) (map fst T)"
    unfolding T_def using sorted by (simp add: sorted_wrt_map sorted_wrt_filter)
  then have "sorted_wrt (\<lambda>a b. key_text ns (index a) < key_text ns (index b)) rs"
    by (simp add: T_eq sorted_wrt_map)
  then have "sorted_wrt (\<lambda>a b. index a < index b) rs"
  proof (rule sorted_wrt_mono_rel [rotated])
    fix a b
    assume a: "a \<in> set rs" and b: "b \<in> set rs"
      and less: "key_text ns (index a) < key_text ns (index b)"
    from sup a have "index a < MAX_SAFE" by blast
    then have wa: "index a < 10 ^ 32" by (rule MAX_SAFE_in_width)
    from sup b have "index b < MAX_SAFE" by blast
    then have wb: "index b < 10 ^ 32" by (rule MAX_SAFE_in_width)
    from less show "index a < index b"
      by (simp only: encoded_less_iff [OF wa wb])
  qed
  then have ord: "sorted_wrt (<) (map index rs)"
    by (simp add: sorted_wrt_map)
  have get: "getByIndex k db (Number (index r)) = Inr (Obj r)
      \<longleftrightarrow> (key_text ns (index r), Obj r) \<in> set (table db)" if "index r < MAX_SAFE" for r
    using that healthy map_of_eq_Some_iff [OF dist, of "key_text ns (index r)" "Obj r"]
    by (auto simp: getByIndex_Number db_get_def ns_def split: option.splits)
  have "r \<in> set rs \<longleftrightarrow> s \<le> index r \<and> index r < e
      \<and> getByIndex k db (Number (index r)) = Inr (Obj r)"
    for r
  proof
    assume "r \<in> set rs"
    then have "(key_text ns (index r), Obj r) \<in> set T" and supr: "index r < MAX_SAFE"
      using sup by (auto simp: T_eq)
    then have "(key_text ns (index r), Obj r) \<in> set (table db)"
      and "lo \<le> key_text ns (index r) \<and> key_text ns (index r) < hi"
      by (simp_all add: T_def)
    then show "s \<le> index r \<and> index r < e \<and> getByIndex k db (Number (index r)) = Inr (Obj r)"
      using in_range_iff [OF s e supr, of ns] by (simp add: get [OF supr] lo_def hi_def)
  next
    assume r: "s \<le> index r \<and> index r < e \<and> getByIndex k db (Number (index r)) = Inr (Obj r)"
    then have supr: "index r < MAX_SAFE"
      using e by simp
    from r have "(key_text ns (index r), Obj r) \<in> set T"
      using in_range_iff [OF s e supr, of ns] by (simp add: T_def get [OF supr] lo_def hi_def)
    then obtain r' where "r' \<in> set rs" "Obj r' = Obj r"
      by (auto simp: T_eq)
    then show "r \<in> set rs"
      by simp
  qed
  then have "set rs = {r. s \<le> index r \<and> index r < e
      \<and> getByIndex k db (Number (index r)) = Inr (Obj r)}"
    by blast
  with res ord show ?thesis
    by blast
qed

text \<open>
  Claim C6 (as amended). On every store written through TransportDB, and for bounds \<open>s\<close>,
  \<open>e\<close> below \<open>2^53 - 1\<close>, the range queries \<open>getTransactionsByIndexRange\<close> and
  \<open>getStateRootsByIndexRange\<close> return exactly the stored records of their kind with
  \<open>s \<le> index < e\<close>, in strictly ascending order of index; so they return the empty
  sequence when no record qualifies. With a bound from \<open>2^53 - 1\<close> on they fail with the
  overflow of \<open>BigNumber.from\<close>, whatever the store holds.
\<close>

theorem range_query_exact:
  "(s < MAX_SAFE \<longrightarrow> e < MAX_SAFE \<longrightarrow>
      (\<exists>rs. getTransactionsByIndexRange (replay ws) s e = Inr (map Obj rs)
        \<and> sorted_wrt (<) (map index rs)
        \<and> set rs = {r. s \<le> index r \<and> index r < e
              \<and> getTransactionByIndex (replay ws) (Number (index r)) = Inr (Obj r)})
      \<and> (\<exists>rs. getStateRootsByIndexRange (replay ws) s e = Inr (map Obj rs)
        \<and> sorted_wrt (<) (map index rs)
        \<and> set rs = {r. s \<le> index r \<and> index r < e
              \<and> getStateRootByIndex (replay ws) (Number (index r)) = Inr (Obj r)}))
    \<and> (MAX_SAFE \<le> s \<or> MAX_SAFE \<le> e \<longrightarrow>
          getTransactionsByIndexRange db s e = Inl (NumericFault ''overflow'')
          \<and> getStateRootsByIndexRange db s e = Inl (NumericFault ''overflow''))"
proof (intro conjI impI)
  assume "MAX_SAFE \<le> s \<or> MAX_SAFE \<le> e"
  then show "getTransactionsByIndexRange db s e = Inl (NumericFault ''overflow'')"
    and "getStateRootsByIndexRange db s e = Inl (NumericFault ''overflow'')"
    by (simp_all add: getTransactionsByIndexRange_def getStateRootsByIndexRange_def values_overflow)
next
  assume b: "s < MAX_SAFE" "e < MAX_SAFE"
  from values_exact [OF store_ok_replay [of Transaction ws] b]
  show "\<exists>rs. getTransactionsByIndexRange (replay ws) s e = Inr (map Obj rs)
        \<and> sorted_wrt (<) (map index rs)
        \<and> set rs = {r. s \<le> index r \<and> index r < e
              \<and> getTransactionByIndex (replay ws) (Number (index r)) = Inr (Obj r)}"
    by (simp add: getTransactionsByIndexRange_def)
  from values_exact [OF store_ok_replay [of StateRoot ws] b]
  show "\<exists>rs. getStateRootsByIndexRange (replay ws) s e = Inr (map Obj rs)
        \<and> sorted_wrt (<) (map index rs)
        \<and> set rs = {r. s \<le> index r \<and> index r < e
              \<and> getStateRootByIndex (replay ws) (Number (index r)) = Inr (Obj r)}"
    by (simp add: getStateRootsByIndexRange_def)
qed

theorem range_query_exact_witness:
  "(2 :: nat) < MAX_SAFE \<and> (5 :: nat) < MAX_SAFE
    \<and> (\<exists>rs. getTransactionsByIndexRange
            (replay [PutTransactionEntries [\<lparr>index = 1\<rparr>, \<lparr>index = 2\<rparr>, \<lparr>index = 3\<rparr>],
              PutStateRootEntries [\<lparr>index = 2\<rparr>, \<lparr>index = 4\<rparr>],
              PutLastScannedEventBlock ''watcher'' 9,
              PutTransactionEntries [\<lparr>index = 5 :: nat\<rparr>]]) 2 5 = Inr (map Obj rs)
        \<and> sorted_wrt (<) (map index rs)
        \<and> set rs = {r. 2 \<le> index r \<and> index r < 5
              \<and> getTransactionByIndex
                  (replay [PutTransactionEntries [\<lparr>index = 1\<rparr>, \<lparr>index = 2\<rparr>, \<lparr>index = 3\<rparr>],
                    PutStateRootEntries [\<lparr>index = 2\<rparr>, \<lparr>index = 4\<rparr>],
                    PutLastScannedEventBlock ''watcher'' 9,
                    PutTransactionEntries [\<lparr>index = 5 :: nat\<rparr>]]) (Number (index r)) = Inr (Obj r)})
    \<and> getTransactionsByIndexRange
          (replay [PutTransactionEntries [\<lparr>index = 1\<rparr>, \<lparr>index = 2\<rparr>, \<lparr>index = 3\<rparr>],
            PutStateRootEntries [\<lparr>index = 2\<rparr>, \<lparr>index = 4\<rparr>],
            PutLastScannedEventBlock ''watcher'' 9,
            PutTransactionEntries [\<lparr>index = 5 :: nat\<rparr>]]) 2 5
        = Inr [Obj \<lparr>index = 2\<rparr>, Obj \<lparr>index = 3\<rparr>]
    \<and> MAX_SAFE \<le> 9007199254740991
    \<and> getTransactionsByIndexRange (db_empty :: Indexed LevelUP) 0 9007199254740991
        = Inl (NumericFault ''overflow'')"
proof -
  let ?ws = "[PutTransactionEntries [\<lparr>index = 1\<rparr>, \<lparr>index = 2\<rparr>, \<lparr>index = 3\<rparr>],
      PutStateRootEntries [\<lparr>index = 2\<rparr>, \<lparr>index = 4\<rparr>],
      PutLastScannedEventBlock ''watcher'' 9,
      PutTransactionEntries [\<lparr>index = 5 :: nat\<rparr>]]"
  have bounds: "(2 :: nat) < MAX_SAFE" "(5 :: nat) < MAX_SAFE"
    and big: "MAX_SAFE \<le> 9007199254740991"
    by (simp_all add: MAX_SAFE_def)
  have run: "getTransactionsByIndexRange (replay ?ws) 2 5 = Inr [Obj \<lparr>index = 2\<rparr>, Obj \<lparr>index = 3\<rparr>]"
    by code_simp
  note a = range_query_exact [where s = 2 and e = 5 and ws = ?ws]
  note b = range_query_exact
    [where s = 0 and e = 9007199254740991 and db = "db_empty :: Indexed LevelUP"]
  from a bounds have first: "\<exists>rs. getTransactionsByIndexRange (replay ?ws) 2 5 = Inr (map Obj rs)
        \<and> sorted_wrt (<) (map index rs)
        \<and> set rs = {r. 2 \<le> index r \<and> index r < 5
              \<and> getTransactionByIndex (replay ?ws) (Number (index r)) = Inr (Obj r)}"
    by blast
  from b big have last: "getTransactionsByIndexRange (db_empty :: Indexed LevelUP) 0 9007199254740991
        = Inl (NumericFault ''overflow'')"
    by blast
  from bounds first run big last show ?thesis
    by (intro conjI)
qed

text \<open>
  The claim as stated fails: the store holds the transaction with index 1, and the query
  for the bounds 0 and \<open>2^53 - 1\<close>, between which 1 lies, fails instead of returning it.
\<close>

theorem range_query_overflow_counterexample:
  "getTransactionByIndex (replay [PutTransactionEntries [\<lparr>index = 1 :: nat\<rparr>]]) (Number 1)
      = Inr (Obj \<lparr>index = 1\<rparr>)
    \<and> (0 :: nat) \<le> 1 \<and> (1 :: nat) < 9007199254740991
    \<and> getTransactionsByIndexRange (replay [PutTransactionEntries [\<lparr>index = 1 :: nat\<rparr>]])
          0 9007199254740991
      = Inl (NumericFault ''overflow'')"
proof -
  have "getTransactionByIndex (replay [PutTransactionEntries [\<lparr>index = 1 :: nat\<rparr>]]) (Number 1)
      = Inr (Obj \<lparr>index = 1\<rparr>)"
    by code_simp
  moreover have "getTransactionsByIndexRange (replay [PutTransactionEntries [\<lparr>index = 1 :: nat\<rparr>]])
          0 9007199254740991
      = Inl (NumericFault ''overflow'')"
    by (simp add: getTransactionsByIndexRange_def values_overflow MAX_SAFE_def)
  ultimately show ?thesis
    by simp
qed

section \<open>Properties of the ingestion loop\<close>

subsection \<open>What each step leaves unchanged\<close>

lemma requests_append [simp]: "requests (xs @ ys) = requests xs @ requests ys"
  by (simp add: requests_def)

lemma storeBlock_keeps:
  "storeBlock w entry s = (r, s') \<Longrightarrow> journal s' = journal s \<and> cursor s' = cursor s"
  by (auto simp: storeBlock_def split: option.splits)

lemma handle_blocks_keeps:
  "handle_blocks opts w blocks s = (r, s') \<Longrightarrow> journal s' = journal s \<and> cursor s' = cursor s"
proof (induction blocks arbitrary: s)
  case Nil
  then show ?case by simp
next
  case (Cons b blocks)
  show ?case
  proof (cases "parseBlock w b (l2ChainId opts)")
    case (Inl e)
    with Cons.prems show ?thesis by simp
  next
    case (Inr entry)
    obtain r1 s1 where st: "storeBlock w entry s = (r1, s1)"
      by (cases "storeBlock w entry s")
    note keep = storeBlock_keeps [OF st]
    show ?thesis
    proof (cases r1)
      case (Inl e)
      with Cons.prems Inr st keep show ?thesis by simp
    next
      case Inr': (Inr u)
      with Cons.prems Inr st have "handle_blocks opts w blocks s1 = (r, s')"
        by simp
      from Cons.IH [OF this] keep show ?thesis by simp
    qed
  qed
qed

lemma fetch_blocks_effect:
  "fetch_blocks opts w a b s = (r, s1) \<Longrightarrow>
     cursor s1 = cursor s \<and> stored s1 = stored s
     \<and> journal s1 = journal s @
         (if legacySequencerCompatibility opts then map Send_getBlockByNumber [a..b]
          else [Send_getBlockRange a b])"
  by (auto simp: fetch_blocks_def Let_def split: if_splits sum.splits)

lemma requests_sends [simp]:
  "requests (map Send_getBlockByNumber ns) = map Send_getBlockByNumber ns"
  by (induction ns) (simp_all add: requests_def)

lemma sync_effect:
  assumes "priv_syncSequencerBlocks opts w a b s = (r, s')"
  shows "cursor s' = cursor s"
    and "a \<le> b \<Longrightarrow> journal s' = journal s @
         (if legacySequencerCompatibility opts then map Send_getBlockByNumber [a..b]
          else [Send_getBlockRange a b])"
    and "b < a \<Longrightarrow> journal s' = journal s @ [LogCannotQuery a b] \<and> stored s' = stored s"
proof -
  obtain r1 s1 where f: "fetch_blocks opts w a b s = (r1, s1)"
    by (cases "fetch_blocks opts w a b s")
  note fe = fetch_blocks_effect [OF f]
  have later: "journal s' = journal s1 \<and> cursor s' = cursor s1" if "a \<le> b"
  proof (cases r1)
    case (Inl e)
    with assms f that show ?thesis
      by (simp add: priv_syncSequencerBlocks_def)
  next
    case (Inr blocks)
    with assms f that have "handle_blocks opts w blocks s1 = (r, s')"
      by (simp add: priv_syncSequencerBlocks_def)
    then show ?thesis
      by (rule handle_blocks_keeps)
  qed
  show "cursor s' = cursor s"
  proof (cases "a \<le> b")
    case True
    with later fe show ?thesis by simp
  next
    case False
    with assms show ?thesis
      by (auto simp: priv_syncSequencerBlocks_def logger_def)
  qed
  show "journal s' = journal s @
         (if legacySequencerCompatibility opts then map Send_getBlockByNumber [a..b]
          else [Send_getBlockRange a b])" if "a \<le> b"
    using later [OF that] fe by simp
  show "journal s' = journal s @ [LogCannotQuery a b] \<and> stored s' = stored s" if "b < a"
    using assms that by (auto simp: priv_syncSequencerBlocks_def logger_def)
qed

subsection \<open>The range that is fetched\<close>

lemma requests_simps [simp]:
  "requests [] = []"
  "requests (Sleep ms # evs) = requests evs"
  "requests (LogSynchronizing a b # evs) = requests evs"
  "requests (LogCannotQuery a b # evs) = requests evs"
  "requests (LogError e # evs) = requests evs"
  "requests (Send_getBlockRange a b # evs) = Send_getBlockRange a b # requests evs"
  by (simp_all add: requests_def)

text \<open>The outcome of the \<open>try\<close> block when the cursor and the height are read.\<close>

lemma try_body_at_head:
  assumes "cursor_read_fault w = None" and "getBlockNumber w = Inr h"
    and "sync_window opts (cursor s) h = (hs, head, target)" and "hs = target"
  shows "try_body opts w s = (Inr (), sleep (pollingInterval opts) s)"
  using assms by (simp add: try_body_def getHighestSyncedUnconfirmedBlock_def)

lemma try_body_syncing:
  assumes "cursor_read_fault w = None" and "getBlockNumber w = Inr h"
    and "sync_window opts (cursor s) h = (hs, head, target)" and "hs \<noteq> target"
    and "priv_syncSequencerBlocks opts w hs target (logger (LogSynchronizing hs target) s) = (r1, s1)"
  shows "try_body opts w s =
     (case r1 of
        Inl e \<Rightarrow> (Inl e, s1)
      | Inr u \<Rightarrow>
          (case cursor_write_fault w of
             Some e \<Rightarrow> (Inl e, s1)
           | None \<Rightarrow>
               (Inr (), if head - hs < transactionsPerPollingInterval opts
                  then sleep (pollingInterval opts) (s1\<lparr>cursor := Some target\<rparr>)
                  else s1\<lparr>cursor := Some target\<rparr>)))"
  using assms
  by (simp add: try_body_def getHighestSyncedUnconfirmedBlock_def
      setHighestSyncedUnconfirmedBlock_def split: sum.split option.split)


lemma loop_iteration_after_try:
  assumes "try_body opts w s = (r, s')"
  shows "\<exists>r' s''. loop_iteration opts w s = (r', s'')
      \<and> cursor s'' = cursor s' \<and> stored s'' = stored s'
      \<and> requests (journal s'') = requests (journal s')
      \<and> set (journal s') \<subseteq> set (journal s'')"
  using assms
  by (cases r) (auto simp: loop_iteration_def sleep_def logger_def)

lemma try_body_requests:
  assumes "cursor_read_fault w = None" and "getBlockNumber w = Inr h"
    and "sync_window opts (cursor s) h = (hs, head, target)"
  shows "requests (journal (snd (try_body opts w s))) = requests (journal s) @
      (if hs < target
       then (if legacySequencerCompatibility opts then map Send_getBlockByNumber [hs..target]
             else [Send_getBlockRange hs target])
       else [])"
proof (cases "hs = target")
  case True
  with assms show ?thesis
    by (simp add: try_body_at_head sleep_def)
next
  case False
  obtain r1 s1 where sync:
    "priv_syncSequencerBlocks opts w hs target (logger (LogSynchronizing hs target) s) = (r1, s1)"
    by (cases "priv_syncSequencerBlocks opts w hs target (logger (LogSynchronizing hs target) s)")
  have j1: "requests (journal s1) = requests (journal s) @
      (if hs < target
       then (if legacySequencerCompatibility opts then map Send_getBlockByNumber [hs..target]
             else [Send_getBlockRange hs target])
       else [])"
  proof (cases "hs < target")
    case True
    then have "hs \<le> target" by simp
    from sync_effect(2) [OF sync this] True show ?thesis
      by (simp add: logger_def)
  next
    case ge: False
    with False have "target < hs" by simp
    from sync_effect(3) [OF sync this] ge show ?thesis
      by (simp add: logger_def)
  qed
  have "requests (journal (snd (try_body opts w s))) = requests (journal s1)"
    by (simp add: try_body_syncing [OF assms False sync] sleep_def split: sum.split option.split)
  with j1 show ?thesis
    by simp
qed

lemma fetch_range_inclusive_aux:
  assumes "cursor_read_fault w = None" and "getBlockNumber w = Inr h"
    and "sync_window opts (cursor s) h = (hs, head, target)"
  shows "requests (journal (snd (loop_iteration opts w s))) = requests (journal s) @
      (if hs < target
       then (if legacySequencerCompatibility opts then map Send_getBlockByNumber [hs..target]
             else [Send_getBlockRange hs target])
       else [])"
proof -
  obtain r s' where t: "try_body opts w s = (r, s')"
    by (cases "try_body opts w s")
  from loop_iteration_after_try [OF t]
  have "requests (journal (snd (loop_iteration opts w s))) = requests (journal (snd (try_body opts w s)))"
    by (auto simp: t)
  with try_body_requests [OF assms] show ?thesis
    by simp
qed

text \<open>
  Claim C1 (as amended). In every iteration that reads the cursor and the height, the
  requests sent to the endpoint are those for the blocks from \<open>highestSynced\<close> to
  \<open>target\<close>, both included, when \<open>highestSynced < target\<close> (one \<open>eth_getBlockRange\<close> for
  the two bounds, or in legacy mode one \<open>eth_getBlockByNumber\<close> for each number), and
  none otherwise. From the empty store with height 11 and a batch size of 5 the first
  iteration fetches and stores the blocks 1 to 6.
\<close>

theorem fetch_range_inclusive:
  assumes "cursor_read_fault w = None" and "getBlockNumber w = Inr h"
    and "sync_window opts (cursor s) h = (hs, head, target)"
  shows "requests (journal (snd (loop_iteration opts w s))) = requests (journal s) @
      (if hs < target
       then (if legacySequencerCompatibility opts then map Send_getBlockByNumber [hs..target]
             else [Send_getBlockRange hs target])
       else [])"
  using assms by (rule fetch_range_inclusive_aux)

theorem fetch_range_inclusive_witness:
  "cursor_read_fault (example_world 11) = None
    \<and> getBlockNumber (example_world 11) = Inr 11
    \<and> sync_window example_options (cursor (fresh_state :: block service_state)) 11 = (1, 10, 6)
    \<and> requests (journal (snd (loop_iteration example_options (example_world 11) fresh_state)))
        = [Send_getBlockRange 1 6]
    \<and> map number (stored (snd (loop_iteration example_options (example_world 11) fresh_state)))
        = [1, 2, 3, 4, 5, 6]
    \<and> cursor (snd (loop_iteration example_options (example_world 11) fresh_state)) = Some 6"
proof -
  have a: "cursor_read_fault (example_world 11) = None"
    and b: "getBlockNumber (example_world 11) = Inr 11"
    and c: "sync_window example_options (cursor (fresh_state :: block service_state)) 11 = (1, 10, 6)"
    by (simp_all add: example_world_def example_options_def fresh_state_def sync_window_def
        js_or_def)
  have d: "map number (stored (snd (loop_iteration example_options (example_world 11) fresh_state)))
        = [1, 2, 3, 4, 5, 6]"
    and e: "cursor (snd (loop_iteration example_options (example_world 11) fresh_state)) = Some 6"
    by code_simp+
  from fetch_range_inclusive [OF a b c] a b c d e show ?thesis
    by (simp add: fresh_state_def example_options_def)
qed

text \<open>
  The claim as stated fails in its own scenario: the request starts at block 1, not at
  block 2, and block 1 is stored.
\<close>

theorem fetch_range_exclusive_counterexample:
  "requests (journal (snd (loop_iteration example_options (example_world 11) fresh_state)))
      \<noteq> [Send_getBlockRange 2 6]
    \<and> map number (stored (snd (loop_iteration example_options (example_world 11) fresh_state)))
      \<noteq> [2, 3, 4, 5, 6]
    \<and> requests (journal (snd (loop_iteration example_options (example_world 11) fresh_state)))
      = [Send_getBlockRange 1 6]
    \<and> map number (stored (snd (loop_iteration example_options (example_world 11) fresh_state)))
      = [1, 2, 3, 4, 5, 6]"
  by code_simp

subsection \<open>The sync window\<close>

text \<open>
  Claim C7 (as amended). At the start of every iteration the window is computed as:
  \<open>highestSynced\<close> is the stored cursor, and 1 when no cursor is stored or the stored
  cursor is 0; \<open>head = max (height - 1) 0\<close>; \<open>target = min (highestSynced + batchSize) head\<close>.
  The iteration acts on these numbers: it sleeps when \<open>highestSynced = target\<close> and
  otherwise logs the two and goes on to synchronize.
\<close>

theorem sync_window_computed:
  "fst (sync_window opts c h) = (case c of None \<Rightarrow> 1 | Some n \<Rightarrow> if n = 0 then 1 else n)
    \<and> fst (snd (sync_window opts c h)) = max (h - 1) 0
    \<and> snd (snd (sync_window opts c h))
        = min (fst (sync_window opts c h) + transactionsPerPollingInterval opts) (max (h - 1) 0)
    \<and> (cursor_read_fault w = None \<longrightarrow> getBlockNumber w = Inr h \<longrightarrow>
          sync_window opts (cursor s) h = (hs, head, tgt) \<longrightarrow>
          (if hs = tgt then try_body opts w s = (Inr (), sleep (pollingInterval opts) s)
           else prefix (journal s @ [LogSynchronizing hs tgt]) (journal (snd (try_body opts w s)))))"
proof (intro conjI impI)
  assume a: "cursor_read_fault w = None" "getBlockNumber w = Inr h"
    "sync_window opts (cursor s) h = (hs, head, tgt)"
  show "if hs = tgt then try_body opts w s = (Inr (), sleep (pollingInterval opts) s)
     else prefix (journal s @ [LogSynchronizing hs tgt]) (journal (snd (try_body opts w s)))"
  proof (cases "hs = tgt")
    case True
    with a show ?thesis
      by (simp add: try_body_at_head)
  next
    case False
    obtain r1 s1 where sync:
      "priv_syncSequencerBlocks opts w hs tgt (logger (LogSynchronizing hs tgt) s) = (r1, s1)"
      by (cases "priv_syncSequencerBlocks opts w hs tgt (logger (LogSynchronizing hs tgt) s)")
    have "prefix (journal s @ [LogSynchronizing hs tgt]) (journal s1)"
    proof (cases "hs \<le> tgt")
      case True
      from sync_effect(2) [OF sync True] show ?thesis
        by (simp add: logger_def)
    next
      case ge: False
      then have "tgt < hs" by simp
      from sync_effect(3) [OF sync this] show ?thesis
        by (simp add: logger_def)
    qed
    moreover have "prefix (journal s1) (journal (snd (try_body opts w s)))"
      by (simp add: try_body_syncing [OF a False sync] sleep_def split: sum.split option.split)
    ultimately show ?thesis
      using False by (auto intro: prefix_order.trans)
  qed
qed (simp_all add: sync_window_def js_or_def Let_def split: option.split)

theorem sync_window_computed_witness:
  "fst (sync_window example_options (Some 6) 11) = 6
    \<and> fst (snd (sync_window example_options (Some 6) 11)) = 10
    \<and> snd (snd (sync_window example_options (Some 6) 11)) = 10
    \<and> cursor_read_fault (example_world 11) = None
    \<and> getBlockNumber (example_world 11) = Inr 11
    \<and> sync_window example_options (cursor (fresh_state\<lparr>cursor := Some 6\<rparr> :: block service_state)) 11
        = (6, 10, 10)
    \<and> prefix (journal (fresh_state\<lparr>cursor := Some 6\<rparr> :: block service_state) @ [LogSynchronizing 6 10])
        (journal (snd (try_body example_options (example_world 11) (fresh_state\<lparr>cursor := Some 6\<rparr>))))"
proof -
  have a: "cursor_read_fault (example_world 11) = None"
    and b: "getBlockNumber (example_world 11) = Inr 11"
    and c: "sync_window example_options (cursor (fresh_state\<lparr>cursor := Some 6\<rparr> :: block service_state)) 11
        = (6, 10, 10)"
    by (simp_all add: example_world_def example_options_def sync_window_def js_or_def)
  from c have c': "sync_window example_options (Some 6) 11 = (6, 10, 10)"
    by simp
  from sync_window_computed [of example_options "Some 6" 11 "example_world 11"
      "fresh_state\<lparr>cursor := Some 6\<rparr>" 6 10 10] a b c
  show ?thesis
    by (simp add: c')
qed

text \<open>
  The claim as stated fails for a stored cursor of 0, which the loop itself stores from
  the empty store when the endpoint reports height 0: the next iteration starts from 1.
\<close>

theorem sync_window_zero_cursor_counterexample:
  "cursor (snd (loop_iteration example_options (example_world 0) fresh_state)) = Some 0
    \<and> fst (sync_window example_options (Some 0) 11) \<noteq> 0
    \<and> fst (sync_window example_options (Some 0) 11) = 1"
  by code_simp

subsection \<open>The cursor\<close>

lemma cursor_le_refl [simp]: "cursor_le c c"
  by (cases c) simp_all










subsection \<open>The error policy\<close>



subsection \<open>Legacy mode\<close>

text \<open>
  Claim C9. In legacy mode, whatever blocks the endpoint answers the per-block requests
  with, the sequence handed to the decoder is sorted in ascending order of the blocks' own
  numbers and is a permutation of the answers; answers with the numbers 3, 2 are handed
  on as 2, 3.
\<close>

theorem legacy_fetch_sorted:
  assumes "legacySequencerCompatibility opts"
    and "Promise_all (map (eth_getBlockByNumber w) [startBlock..endBlock]) = Inr responses"
  shows "\<exists>blocks s1. fetch_blocks opts w startBlock endBlock s = (Inr blocks, s1)
      \<and> sorted (map number blocks) \<and> mset blocks = mset responses
      \<and> (startBlock \<le> endBlock \<longrightarrow>
            priv_syncSequencerBlocks opts w startBlock endBlock s = handle_blocks opts w blocks s1)"
  using assms by (simp add: fetch_blocks_def priv_syncSequencerBlocks_def Let_def)

theorem legacy_fetch_sorted_witness:
  "legacySequencerCompatibility legacy_options
    \<and> Promise_all (map (eth_getBlockByNumber swapping_world) [2..3])
        = Inr [\<lparr>number = 3, body = []\<rparr>, \<lparr>number = 2, body = []\<rparr>]
    \<and> (\<exists>blocks s1. fetch_blocks legacy_options swapping_world 2 3 fresh_state = (Inr blocks, s1)
        \<and> sorted (map number blocks)
        \<and> mset blocks = mset [\<lparr>number = 3, body = []\<rparr>, \<lparr>number = 2, body = []\<rparr>]
        \<and> ((2::int) \<le> 3 \<longrightarrow>
              priv_syncSequencerBlocks legacy_options swapping_world 2 3 fresh_state
                = handle_blocks legacy_options swapping_world blocks s1))
    \<and> fst (fetch_blocks legacy_options swapping_world 2 3 fresh_state)
        = Inr [\<lparr>number = 2, body = []\<rparr>, \<lparr>number = 3, body = []\<rparr>]
    \<and> stored (snd (priv_syncSequencerBlocks legacy_options swapping_world 2 3 fresh_state))
        = [\<lparr>number = 2, body = []\<rparr>, \<lparr>number = 3, body = []\<rparr>]"
proof -
  have a: "legacySequencerCompatibility legacy_options"
    by (simp add: legacy_options_def)
  have b: "Promise_all (map (eth_getBlockByNumber swapping_world) [2..3])
        = Inr [\<lparr>number = 3, body = []\<rparr>, \<lparr>number = 2, body = []\<rparr>]"
    by code_simp
  have c: "fst (fetch_blocks legacy_options swapping_world 2 3 fresh_state)
        = Inr [\<lparr>number = 2, body = []\<rparr>, \<lparr>number = 3, body = []\<rparr>]"
    and d: "stored (snd (priv_syncSequencerBlocks legacy_options swapping_world 2 3 fresh_state))
        = [\<lparr>number = 2, body = []\<rparr>, \<lparr>number = 3, body = []\<rparr>]"
    by code_simp+
  from legacy_fetch_sorted [OF a b, of fresh_state] a b c d show ?thesis
    by (intro conjI)
qed



end
